theory Spec2Isabelle
  imports Complex_Main
begin

section \<open>JavaScript numbers\<close>

text \<open>
  A JavaScript \<open>number\<close> is an IEEE-754 binary64 value. A finite one is modelled by the
  real number it denotes, and every arithmetic operation of the source is the exact
  operation followed by rounding to 53 significant bits, nearest with ties to even
  (\<open>fl\<close>). The exponent range is not modelled: overflow and gradual underflow are out of
  reach of the values of this program (identifiers, readings between 0 and 100, random
  draws below 1), and neither NaN nor an infinity is ever produced.
\<close>

definition round_half_even :: "real \<Rightarrow> int" where
  "round_half_even x =
     (let f = \<lfloor>x\<rfloor>; d = x - of_int f
      in if d < 1 / 2 then f
         else if 1 / 2 < d then f + 1
         else if even f then f else f + 1)"

text \<open>
  Rounding a positive real to 53 significant bits: scale by two into \<open>[2^52, 2^53)\<close>,
  round to the nearest integer there, scale back.
\<close>

function round53 :: "real \<Rightarrow> real" where
  "round53 x =
     (if x \<le> 0 then 0
      else if 2 ^ 53 \<le> x then 2 * round53 (x / 2)
      else if x < 2 ^ 52 then round53 (2 * x) / 2
      else of_int (round_half_even x))"
  by pat_completeness auto
termination
proof (relation "measure (\<lambda>x. if 2 ^ 52 \<le> x then nat \<lfloor>x / 2 ^ 52\<rfloor> else nat \<lceil>2 * 2 ^ 52 / x\<rceil>)")
  have floor_half: "\<lfloor>y / 2\<rfloor> < \<lfloor>y\<rfloor>" if "1 \<le> y" for y :: real
  proof -
    have "1 \<le> \<lfloor>y\<rfloor>" using that by linarith
    then have "(1::real) \<le> of_int \<lfloor>y\<rfloor>" by linarith
    moreover have "y < of_int \<lfloor>y\<rfloor> + 1" by linarith
    ultimately have "y / 2 < of_int \<lfloor>y\<rfloor>" by linarith
    then show ?thesis by (simp add: floor_less_iff)
  qed
  have ceiling_half: "\<lceil>y / 2\<rceil> < \<lceil>y\<rceil>" if "1 < y" for y :: real
  proof -
    have "2 \<le> \<lceil>y\<rceil>" using that by linarith
    then have "(2::real) \<le> of_int \<lceil>y\<rceil>" by linarith
    moreover have "y \<le> of_int \<lceil>y\<rceil>" by linarith
    ultimately have "y / 2 \<le> of_int \<lceil>y\<rceil> - 1" by linarith
    then have "y / 2 \<le> of_int (\<lceil>y\<rceil> - 1)" by simp
    then have "\<lceil>y / 2\<rceil> \<le> \<lceil>y\<rceil> - 1" by (simp only: ceiling_le_iff)
    then show ?thesis by simp
  qed
  have down: "nat \<lfloor>x / 2 / B\<rfloor> < nat \<lfloor>x / B\<rfloor>" if "0 < B" "2 * B \<le> x" for x B :: real
  proof -
    have one: "1 \<le> x / B" using that by (simp add: field_simps)
    from floor_half[OF this] have "\<lfloor>x / 2 / B\<rfloor> < \<lfloor>x / B\<rfloor>" by (simp add: mult.commute)
    moreover have "0 < \<lfloor>x / B\<rfloor>" using one by linarith
    ultimately show ?thesis by linarith
  qed
  have up1: "nat \<lfloor>2 * x / B\<rfloor> < nat \<lceil>2 * B / x\<rceil>" if "0 < x" "x < B" "B \<le> 2 * x" for x B :: real
  proof -
    have "2 < 2 * B / x" using that by (simp add: field_simps)
    then have "2 < \<lceil>2 * B / x\<rceil>" by linarith
    moreover have "2 * x / B < 2" using that by (simp add: field_simps)
    then have "\<lfloor>2 * x / B\<rfloor> < 2" by (simp only: floor_less_iff)
    ultimately show ?thesis by linarith
  qed
  have up2: "nat \<lceil>2 * B / (2 * x)\<rceil> < nat \<lceil>2 * B / x\<rceil>" if "0 < x" "2 * x < B" for x B :: real
  proof -
    have one: "1 < 2 * B / x" using that by (simp add: field_simps)
    from ceiling_half[OF this] have "\<lceil>2 * B / (2 * x)\<rceil> < \<lceil>2 * B / x\<rceil>"
      by (simp add: field_simps)
    moreover have "0 < \<lceil>2 * B / x\<rceil>" using one by linarith
    ultimately show ?thesis by linarith
  qed
  show "wf (measure (\<lambda>x::real. if 2 ^ 52 \<le> x then nat \<lfloor>x / 2 ^ 52\<rfloor> else nat \<lceil>2 * 2 ^ 52 / x\<rceil>))"
    by simp
  show "(x / 2, x) \<in> measure (\<lambda>x. if 2 ^ 52 \<le> x then nat \<lfloor>x / 2 ^ 52\<rfloor> else nat \<lceil>2 * 2 ^ 52 / x\<rceil>)"
    if "\<not> x \<le> 0" "2 ^ 53 \<le> x" for x :: real
    using that down[of "2 ^ 52" x] by simp
  show "(2 * x, x) \<in> measure (\<lambda>x. if 2 ^ 52 \<le> x then nat \<lfloor>x / 2 ^ 52\<rfloor> else nat \<lceil>2 * 2 ^ 52 / x\<rceil>)"
    if "\<not> x \<le> 0" "\<not> 2 ^ 53 \<le> x" "x < 2 ^ 52" for x :: real
    using that up1[of x "2 ^ 52"] up2[of x "2 ^ 52"] by (cases "2 ^ 52 \<le> 2 * x") simp_all
qed

declare round53.simps [simp del]

definition fl :: "real \<Rightarrow> real" where
  "fl x = (if x < 0 then - round53 (- x) else round53 x)"

text \<open>The values a \<open>number\<close> can hold, up to the exponent range.\<close>

definition is_double :: "real \<Rightarrow> bool" where
  "is_double x \<longleftrightarrow> fl x = x"

text \<open>A decimal literal of the source denotes the nearest double.\<close>

definition lit :: "real \<Rightarrow> real" where
  "lit x = fl x"

definition js_add :: "real \<Rightarrow> real \<Rightarrow> real" where
  "js_add a b = fl (a + b)"

definition js_sub :: "real \<Rightarrow> real \<Rightarrow> real" where
  "js_sub a b = fl (a - b)"

definition js_mul :: "real \<Rightarrow> real \<Rightarrow> real" where
  "js_mul a b = fl (a * b)"

definition Math_floor :: "real \<Rightarrow> real" where
  "Math_floor x = of_int \<lfloor>x\<rfloor>"

text \<open>
  The operator \<open>%\<close> on integer-valued numbers with a non-zero right operand: the remainder
  of the division that truncates towards zero, so that the result has the sign of the
  left operand (\<open>-3 % 10\<close> is \<open>-3\<close>). The result is exact.
\<close>

definition js_rem :: "int \<Rightarrow> int \<Rightarrow> int" where
  "js_rem a n = sgn a * (\<bar>a\<bar> mod \<bar>n\<bar>)"

text \<open>
  \<open>x.toFixed(f)\<close> chooses the integer \<open>n\<close> for which \<open>n / 10^f\<close> is closest to the exact
  value of \<open>x\<close>, the larger one on a tie, after taking the sign off; from \<open>10^21\<close> on it is
  the ordinary conversion to a string. The decimal string is represented by the value it
  denotes; \<open>parseFloat\<close> reads such a string back as the nearest double.
\<close>

definition toFixed :: "real \<Rightarrow> nat \<Rightarrow> real" where
  "toFixed x f =
     (if 10 ^ 21 \<le> \<bar>x\<bar> then x
      else if x < 0 then - (of_int \<lfloor>- x * 10 ^ f + 1 / 2\<rfloor> / 10 ^ f)
      else of_int \<lfloor>x * 10 ^ f + 1 / 2\<rfloor> / 10 ^ f)"

definition parseFloat :: "real \<Rightarrow> real" where
  "parseFloat s = fl s"

text \<open>
  Conversion of an integer-valued number to a string, as in a template literal. The
  digits printed are those of the decimal \<open>s * 10^e\<close> with the fewest significant digits
  that denotes the number (that rounds to it), of several such the closest to the number
  and on a tie the one with \<open>s\<close> even. Up to \<open>2^53\<close> this decimal is the number itself; above,
  the number \<open>2^60\<close> is printed as \<open>1152921504606847000\<close>. From \<open>10^21\<close> on the decimal is
  written with an exponent, as in \<open>1e+21\<close> and \<open>1.1805916207174113e+21\<close>.
\<close>

function digits :: "int \<Rightarrow> string" where
  "digits n = (if n < 10 then [''0123456789'' ! nat n]
               else digits (n div 10) @ [''0123456789'' ! nat (n mod 10)])"
  by pat_completeness auto
termination
  by (relation "measure nat") auto

declare digits.simps [simp del]

text \<open>
  \<open>shortest_from n e\<close> looks for the decimal among the multiples of \<open>10^e\<close>, then of
  \<open>10^(e-1)\<close>, and so on down to \<open>n\<close> itself: at each step the two multiples around \<open>n\<close>.
\<close>

fun shortest_from :: "int \<Rightarrow> nat \<Rightarrow> int" where
  "shortest_from n 0 = n"
| "shortest_from n (Suc e) =
     (let p = 10 ^ Suc e; lo = n div p * p; hi = lo + p;
          ok_lo = (fl (of_int lo) = (of_int n :: real));
          ok_hi = (fl (of_int hi) = (of_int n :: real))
      in if ok_lo \<and> ok_hi then
           (if n - lo < hi - n then lo
            else if hi - n < n - lo then hi
            else if even (n div p) then lo else hi)
         else if ok_lo then lo
         else if ok_hi then hi
         else shortest_from n e)"

definition shortest :: "int \<Rightarrow> int" where
  "shortest n = shortest_from n (length (digits n) - 1)"

definition exponential :: "int \<Rightarrow> string" where
  "exponential v =
     (let ds = digits v;
          s = rev (dropWhile (\<lambda>c. c = CHR ''0'') (rev ds))
      in (case s of
            [] \<Rightarrow> []
          | [c] \<Rightarrow> [c]
          | c # cs \<Rightarrow> c # ''.'' @ cs)
         @ ''e+'' @ digits (int (length ds - 1)))"

text \<open>The conversion of a number that is not negative.\<close>

definition toString_nonneg :: "int \<Rightarrow> string" where
  "toString_nonneg n = (let v = shortest n in if v < 10 ^ 21 then digits v else exponential v)"

definition toString :: "int \<Rightarrow> string" where
  "toString n = (if n < 0 then ''-'' @ toString_nonneg (- n) else toString_nonneg n)"

section \<open>Configuration and interfaces\<close>

type_synonym env = "string \<Rightarrow> string option"

text \<open>\<open>process.env.KEY || fallback\<close>: an absent or empty variable gives the fallback.\<close>

definition env_or :: "env \<Rightarrow> string \<Rightarrow> string \<Rightarrow> string" where
  "env_or env key fallback =
     (case env key of None \<Rightarrow> fallback | Some v \<Rightarrow> if v = [] then fallback else v)"

definition TARGET_API_URL :: "env \<Rightarrow> string" where
  "TARGET_API_URL env = env_or env ''TARGET_API_URL'' ''http://localhost:3000/api/telemetry''"

definition UPDATE_INTERVAL_MS :: nat where
  "UPDATE_INTERVAL_MS = 2000"

text \<open>
  An entry of the registry. The device ID is a whole number, the key of the device table;
  it may be negative.
\<close>

record DeviceConfig =
  deviceId :: int
  serial :: string
  name :: string
  location :: string

record PayloadMeta =
  firmware :: string
  status :: string

text \<open>The field \<open>deviceId\<close> of the payload is \<open>data_deviceId\<close>, apart from that of the configuration.\<close>

record TelemetryPayload =
  data_deviceId :: int
  ts :: string
  temperature :: real
  humidity :: real
  battery :: real
  payload :: PayloadMeta

section \<open>The device class\<close>

record SimulatedDevice =
  config :: DeviceConfig
  token :: string
  baseTemp :: real
  baseHum :: real
  currentBattery :: real

text \<open>The constructor; \<open>r\<close> is the value its one call of \<open>Math.random()\<close> returns.\<close>

definition new_SimulatedDevice :: "DeviceConfig \<Rightarrow> string \<Rightarrow> real \<Rightarrow> SimulatedDevice" where
  "new_SimulatedDevice cfg tok r =
     (let seed = deviceId cfg
      in \<lparr>config = cfg, token = tok,
          baseTemp = js_add 20 (of_int (js_rem seed 10)),
          baseHum = js_add 40 (of_int (js_rem seed 15)),
          currentBattery = Math_floor (js_mul r 100)\<rparr>)"

text \<open>\<open>variance()\<close>, given the value \<open>r\<close> of its call of \<open>Math.random()\<close>.\<close>

definition variance :: "real \<Rightarrow> real" where
  "variance r = js_add (lit (8 / 10)) (js_mul r (lit (4 / 10)))"

text \<open>
  \<open>generateTelemetry()\<close>: \<open>r1\<close> and \<open>r2\<close> are the two random draws in the order the source
  makes them (temperature, then humidity), \<open>now\<close> is \<open>new Date().toISOString()\<close>. The
  result is the payload and the device after the call.
\<close>

definition generateTelemetry ::
  "SimulatedDevice \<Rightarrow> real \<Rightarrow> real \<Rightarrow> string \<Rightarrow> TelemetryPayload \<times> SimulatedDevice" where
  "generateTelemetry this r1 r2 now =
     (let temp = parseFloat (toFixed (js_mul (baseTemp this) (variance r1)) 1);
          hum = parseFloat (toFixed (js_mul (baseHum this) (variance r2)) 1);
          b = js_sub (currentBattery this) (lit (35 / 100));
          this' = this\<lparr>currentBattery := (if b \<le> 0 then 100 else b)\<rparr>
      in (\<lparr>data_deviceId = deviceId (config this'), ts = now,
           temperature = temp, humidity = hum,
           battery = parseFloat (toFixed (currentBattery this') 1),
           payload = \<lparr>firmware = ''1.0.4'', status = ''ok''\<rparr>\<rparr>,
          this'))"

text \<open>The device after each call of a sequence of calls, oldest first.\<close>

fun generateTelemetry_calls ::
  "SimulatedDevice \<Rightarrow> (real \<times> real \<times> string) list \<Rightarrow> SimulatedDevice list" where
  "generateTelemetry_calls this [] = []"
| "generateTelemetry_calls this ((r1, r2, now) # calls) =
     (let this' = snd (generateTelemetry this r1 r2 now)
      in this' # generateTelemetry_calls this' calls)"

section \<open>Delivery\<close>

text \<open>
  What the process writes to the console. A line is kept as the pieces of its template:
  literal and string-valued pieces, integer-valued numbers and other numbers, the
  interpolated numbers not rendered.
\<close>

datatype piece = S string | I int | N real

datatype console_line =
  Console_log "piece list" | Console_warn "piece list" | Console_error "piece list"

datatype js_error = Error (message: string)

text \<open>
  A computation that may throw, or a promise once settled: \<open>Inl\<close> is the exception or the
  reason of the rejection, \<open>Inr\<close> the value.
\<close>

type_synonym 'a settled = "js_error + 'a"

definition try_catch :: "'a settled \<Rightarrow> (js_error \<Rightarrow> 'a settled) \<Rightarrow> 'a settled" where
  "try_catch body handler = (case body of Inl error \<Rightarrow> handler error | Inr v \<Rightarrow> Inr v)"

record request =
  url :: string
  data :: TelemetryPayload
  headers :: "(string \<times> string) list"

text \<open>
  What one call of \<open>pushData()\<close> takes from outside: the two random draws and the clock
  reading of \<open>generateTelemetry()\<close>, and how the promise of \<open>axios.post\<close> settles, fulfilled
  with the status of the response or rejected (axios rejects on a transport error and on
  a status outside 2xx).
\<close>

record push_input =
  draw_temp :: real
  draw_hum :: real
  clock :: string
  post :: "nat settled"

text \<open>
  The effects of one call: the device afterwards, the request issued, and the promise
  the call returns, fulfilled once the console line has been written or rejected.
\<close>

record push_effect =
  device :: SimulatedDevice
  sent :: request
  outcome :: "console_line settled"

definition pushData :: "env \<Rightarrow> SimulatedDevice \<Rightarrow> push_input \<Rightarrow> push_effect" where
  "pushData env this inp =
     (let (d, this') = generateTelemetry this (draw_temp inp) (draw_hum inp) (clock inp);
          req = \<lparr>url = TARGET_API_URL env, data = d,
                 headers = [(''Content-Type'', ''application/json''),
                            (''x-device-token'', token this')]\<rparr>
      in \<lparr>device = this', sent = req,
          outcome =
            try_catch
              (case post inp of
                 Inl error \<Rightarrow> Inl error
               | Inr response \<Rightarrow>
                   Inr (Console_log
                     [S ''['', S (name (config this')), S '' @ '', S (location (config this')),
                      S '']='', I (data_deviceId d), S '' Sent: T:'', N (temperature d),
                      S '' H:'', N (humidity d), S '' B:'', N (battery d),
                      S '' at:'', S (ts d)]))
              (\<lambda>error.
                 Inr (Console_error
                   [S ''['', S (name (config this')), S '']='', I (data_deviceId d),
                    S '' Error:'', S (message error)]))\<rparr>)"

section \<open>The fleet\<close>

text \<open>
  The functions given to \<open>setInterval\<close>; the source has one, the arrow function
  \<open>() => { devices.forEach(d => d.pushData()); }\<close>.
\<close>

datatype callback = Fleet_tick

text \<open>
  The state of the process: the array \<open>devices\<close>, the console, the routes of the express
  application, the port it listens on, the interval timers registered, each with its
  period in milliseconds and its callback, and the effects of the ticks run so far, one
  list of calls of \<open>pushData()\<close> for each tick.
\<close>

record process =
  devices :: "SimulatedDevice list"
  console :: "console_line list"
  routes :: "string list"
  listening :: "string option"
  intervals :: "(nat \<times> callback) list"
  ticks :: "push_effect list list"

definition envTokenKey :: "DeviceConfig \<Rightarrow> string" where
  "envTokenKey cfg = ''TOKEN_DEVICE_'' @ toString (deviceId cfg)"

text \<open>
  The callback of \<open>deviceConfigs.forEach\<close>. The constructor's random draw is \<open>rnd\<close> at the
  number of devices built before. The warning sign that opens the warning is left out.
\<close>

definition instantiate :: "env \<Rightarrow> (nat \<Rightarrow> real) \<Rightarrow> process \<Rightarrow> DeviceConfig \<Rightarrow> process" where
  "instantiate env rnd p cfg =
     (let warning = Console_warn
            [S ''Warning: No token found in .env for Device ID '', I (deviceId cfg),
             S '' (Expected key: '', S (envTokenKey cfg), S ''). Skipping.'']
      in case env (envTokenKey cfg) of
           None \<Rightarrow> p\<lparr>console := console p @ [warning]\<rparr>
         | Some tok \<Rightarrow>
             if tok = [] then p\<lparr>console := console p @ [warning]\<rparr>
             else p\<lparr>devices := devices p @
                      [new_SimulatedDevice cfg tok (rnd (length (devices p)))]\<rparr>)"

text \<open>
  The top level of the module up to \<open>app.listen\<close>. \<open>file\<close> is what \<open>fs.readFileSync\<close> does
  on \<open>devices.json\<close> (the content, or the exception thrown), \<open>JSON_parse\<close> is \<open>JSON.parse\<close>
  read at the type \<open>DeviceConfig[]\<close>. An exception at the top level ends the process:
  the result is then \<open>Inl\<close> of the exception and of the state reached.
\<close>

definition main ::
  "env \<Rightarrow> string settled \<Rightarrow> (string \<Rightarrow> DeviceConfig list settled) \<Rightarrow> (nat \<Rightarrow> real)
     \<Rightarrow> (js_error \<times> process) + process" where
  "main env file JSON_parse rnd =
     (let p0 = \<lparr>devices = [], console = [], routes = [], listening = None,
                intervals = [], ticks = []\<rparr>
      in case file of
           Inl error \<Rightarrow> Inl (error, p0)
         | Inr rawConfig \<Rightarrow>
            (case JSON_parse rawConfig of
               Inl error \<Rightarrow> Inl (error, p0)
             | Inr deviceConfigs \<Rightarrow>
                 let p1 = p0\<lparr>console := console p0 @
                            [Console_log [S ''Loading '', I (int (length deviceConfigs)),
                                          S '' devices from registry...'']]\<rparr>;
                     p2 = foldl (instantiate env rnd) p1 deviceConfigs;
                     p3 = p2\<lparr>console := console p2 @
                            [Console_log [S ''Successfully initialized '',
                                          I (int (length (devices p2))), S '' devices.'']]\<rparr>;
                     p4 = p3\<lparr>routes := routes p3 @ [''/health'']\<rparr>
                 in Inr (p4\<lparr>listening := Some (env_or env ''PORT'' ''4000'')\<rparr>)))"

text \<open>The handler of \<open>GET /health\<close>: the fields \<open>status\<close> and \<open>activeDevices\<close> of the answer.\<close>

definition health :: "process \<Rightarrow> string \<times> nat" where
  "health p = (''running'', length (devices p))"

text \<open>
  One fleet tick, \<open>devices.forEach(d => d.pushData())\<close>; \<open>inp i\<close> is what the call on the
  device at index \<open>i\<close> takes from outside.
\<close>

definition tick :: "env \<Rightarrow> process \<Rightarrow> (nat \<Rightarrow> push_input) \<Rightarrow> process" where
  "tick env p inp =
     (let effects = map (\<lambda>(i, d). pushData env d (inp i)) (enumerate 0 (devices p))
      in p\<lparr>devices := map device effects, ticks := ticks p @ [effects]\<rparr>)"

definition startSimulation :: "env \<Rightarrow> process \<Rightarrow> (nat \<Rightarrow> push_input) \<Rightarrow> process" where
  "startSimulation env p inp =
     (let p1 = tick env p inp
      in p1\<lparr>intervals := intervals p1 @ [(UPDATE_INTERVAL_MS, Fleet_tick)]\<rparr>)"

text \<open>The callback of \<open>app.listen\<close>.\<close>

definition on_listening :: "env \<Rightarrow> process \<Rightarrow> (nat \<Rightarrow> push_input) \<Rightarrow> process" where
  "on_listening env p inp =
     startSimulation env
       (p\<lparr>console := console p @
            [Console_log [S ''Simulator running on port '', S (env_or env ''PORT'' ''4000'')]]\<rparr>)
       inp"

text \<open>One run of the callback of a timer.\<close>

definition call :: "callback \<Rightarrow> env \<Rightarrow> process \<Rightarrow> (nat \<Rightarrow> push_input) \<Rightarrow> process" where
  "call cb env p inp = (case cb of Fleet_tick \<Rightarrow> tick env p inp)"

text \<open>
  \<open>n\<close> firings of a timer with the callback \<open>cb\<close>, one after the other; \<open>inps k\<close> is what the
  tick numbered \<open>k\<close> takes from outside, the first of these firings being the tick
  numbered \<open>k\<close>. When a firing is due is the matter of the host's timer, given the period.
\<close>

fun fire ::
  "callback \<Rightarrow> env \<Rightarrow> process \<Rightarrow> (nat \<Rightarrow> nat \<Rightarrow> push_input) \<Rightarrow> nat \<Rightarrow> nat \<Rightarrow> process" where
  "fire cb env p inps k 0 = p"
| "fire cb env p inps k (Suc n) = fire cb env (call cb env p (inps k)) inps (Suc k) n"

section \<open>Rounding\<close>

lemma rhe_lower: "of_int \<lfloor>x\<rfloor> \<le> (of_int (round_half_even x) :: real)"
  by (simp add: round_half_even_def Let_def)

lemma rhe_upper: "round_half_even x \<le> \<lceil>x\<rceil>"
proof -
  have "x - of_int \<lfloor>x\<rfloor> \<noteq> 0 \<Longrightarrow> \<lfloor>x\<rfloor> + 1 \<le> \<lceil>x\<rceil>" by linarith
  moreover have "\<lfloor>x\<rfloor> \<le> \<lceil>x\<rceil>" by linarith
  ultimately show ?thesis
    by (auto simp: round_half_even_def Let_def)
qed

lemma rhe_err: "\<bar>of_int (round_half_even x) - x\<bar> \<le> 1 / 2"
proof -
  have "of_int \<lfloor>x\<rfloor> \<le> x" "x < of_int \<lfloor>x\<rfloor> + 1" by linarith+
  then show ?thesis
    by (auto simp: round_half_even_def Let_def abs_le_iff)
qed

lemma rhe_of_int: "round_half_even (of_int k) = k"
  by (simp add: round_half_even_def)

lemma rhe_le_int: "x \<le> of_int k \<Longrightarrow> round_half_even x \<le> k"
  using rhe_upper[of x] by (meson ceiling_le order_trans)

lemma rhe_ge_int: "of_int k \<le> x \<Longrightarrow> k \<le> round_half_even x"
proof -
  assume "of_int k \<le> x"
  then have "k \<le> \<lfloor>x\<rfloor>" by (simp add: le_floor_iff)
  moreover have "\<lfloor>x\<rfloor> \<le> round_half_even x" using rhe_lower[of x] by linarith
  ultimately show ?thesis by linarith
qed

lemma round53_scale: "0 < x \<Longrightarrow> round53 (2 * x) = 2 * round53 x"
proof -
  assume p: "0 < x"
  show ?thesis
  proof (cases "x < 2 ^ 52")
    case True
    then show ?thesis using p by (subst (2) round53.simps) simp
  next
    case False
    then have "2 ^ 53 \<le> 2 * x" by simp
    then show ?thesis using p by (subst round53.simps) simp
  qed
qed

lemma round53_half: "0 < x \<Longrightarrow> round53 (x / 2) = round53 x / 2"
  using round53_scale[of "x / 2"] by simp

lemma round53_le_repr: "0 < x \<Longrightarrow> x \<le> c \<Longrightarrow> round53 c = c \<Longrightarrow> round53 x \<le> c"
proof (induction x arbitrary: c rule: round53.induct)
  case (1 x)
  have cp: "0 < c" using "1.prems" by linarith
  show ?case
  proof (cases "2 ^ 53 \<le> x")
    case True
    have "round53 (x / 2) \<le> c / 2"
      using "1.IH"(1)[of "c / 2"] "1.prems" True round53_half[OF cp] by simp
    then show ?thesis using True "1.prems" by (subst round53.simps) simp
  next
    case False
    show ?thesis
    proof (cases "x < 2 ^ 52")
      case True
      have "round53 (2 * x) \<le> 2 * c"
        using "1.IH"(2)[of "2 * c"] "1.prems" True False round53_scale[OF cp] by simp
      then show ?thesis using True False "1.prems" by (subst round53.simps) simp
    next
      case b: False
      have rx: "round53 x = of_int (round_half_even x)"
        using b False "1.prems" by (subst round53.simps) simp
      show ?thesis
      proof (cases "c < 2 ^ 53")
        case True
        then have "round53 c = of_int (round_half_even c)"
          using b "1.prems" by (subst round53.simps) simp
        then have "x \<le> of_int (round_half_even c)" using "1.prems" by simp
        from rhe_le_int[OF this] have "round_half_even x \<le> round_half_even c" .
        then have "(of_int (round_half_even x) :: real) \<le> of_int (round_half_even c)" by simp
        then show ?thesis using rx \<open>round53 c = of_int (round_half_even c)\<close> "1.prems" by simp
      next
        case c53: False
        have "x \<le> of_int (2 ^ 53)" using False by simp
        from rhe_le_int[OF this] have "(of_int (round_half_even x) :: real) \<le> of_int (2 ^ 53)"
          by (simp only: of_int_le_iff)
        then show ?thesis using rx c53 by simp
      qed
    qed
  qed
qed

lemma round53_ge_repr: "0 < c \<Longrightarrow> c \<le> x \<Longrightarrow> round53 c = c \<Longrightarrow> c \<le> round53 x"
proof (induction x arbitrary: c rule: round53.induct)
  case (1 x)
  have xp: "0 < x" using "1.prems" by linarith
  have cp: "0 < c" using "1.prems" by linarith
  show ?case
  proof (cases "2 ^ 53 \<le> x")
    case True
    have "c / 2 \<le> round53 (x / 2)"
      using "1.IH"(1)[of "c / 2"] "1.prems" True round53_half[OF cp] by simp
    then show ?thesis using True xp by (subst round53.simps) simp
  next
    case False
    show ?thesis
    proof (cases "x < 2 ^ 52")
      case True
      have "2 * c \<le> round53 (2 * x)"
        using "1.IH"(2)[of "2 * c"] "1.prems" True False round53_scale[OF cp] by simp
      then show ?thesis using True False xp by (subst round53.simps) simp
    next
      case b: False
      have rx: "round53 x = of_int (round_half_even x)"
        using b False xp by (subst round53.simps) simp
      show ?thesis
      proof (cases "2 ^ 52 \<le> c")
        case True
        have "c < 2 ^ 53" using "1.prems" False by linarith
        then have rc: "round53 c = of_int (round_half_even c)"
          using True cp by (subst round53.simps) simp
        then have "of_int (round_half_even c) \<le> x" using "1.prems" by simp
        from rhe_ge_int[OF this] have "(of_int (round_half_even c) :: real) \<le> of_int (round_half_even x)"
          by (simp only: of_int_le_iff)
        then show ?thesis using rx rc "1.prems" by simp
      next
        case c52: False
        have "of_int (2 ^ 52) \<le> x" using b by simp
        from rhe_ge_int[OF this] have "(of_int (2 ^ 52) :: real) \<le> of_int (round_half_even x)"
          by (simp only: of_int_le_iff)
        then show ?thesis using rx c52 by simp
      qed
    qed
  qed
qed

lemma round53_err:
  "0 < x \<Longrightarrow> x - x / 2 ^ 53 \<le> round53 x \<and> round53 x \<le> x + x / 2 ^ 53"
proof (induction x rule: round53.induct)
  case (1 x)
  define e where "e = x / 2 ^ 53"
  show ?case
  proof (cases "2 ^ 53 \<le> x")
    case True
    have h: "x / 2 / 2 ^ 53 = e / 2" by (simp add: e_def)
    have "x / 2 - e / 2 \<le> round53 (x / 2) \<and> round53 (x / 2) \<le> x / 2 + e / 2"
      using "1.IH"(1) "1.prems" True unfolding h by simp
    moreover have "round53 x = 2 * round53 (x / 2)"
      using True "1.prems" by (subst round53.simps) simp
    ultimately have "x - e \<le> round53 x \<and> round53 x \<le> x + e" by linarith
    then show ?thesis by (simp only: e_def)
  next
    case False
    show ?thesis
    proof (cases "x < 2 ^ 52")
      case True
      have h: "2 * x / 2 ^ 53 = 2 * e" by (simp add: e_def)
      have "2 * x - 2 * e \<le> round53 (2 * x) \<and> round53 (2 * x) \<le> 2 * x + 2 * e"
        using "1.IH"(2) "1.prems" True False unfolding h by simp
      moreover have "round53 x = round53 (2 * x) / 2"
        using True False "1.prems" by (subst round53.simps) simp
      ultimately have "x - e \<le> round53 x \<and> round53 x \<le> x + e" by linarith
      then show ?thesis by (simp only: e_def)
    next
      case b: False
      have rx: "round53 x = of_int (round_half_even x)"
        using b False "1.prems" by (subst round53.simps) simp
      have "1 / 2 \<le> e" using b by (simp add: e_def)
      then have "x - e \<le> round53 x \<and> round53 x \<le> x + e"
        using rhe_err[of x] rx by (simp only: abs_le_iff) linarith
      then show ?thesis by (simp only: e_def)
    qed
  qed
qed

lemma round53_nonpos: "x \<le> 0 \<Longrightarrow> round53 x = 0"
  by (subst round53.simps) simp

lemma round53_pos: "0 < x \<Longrightarrow> 0 < round53 x"
proof -
  assume p: "0 < x"
  have "x / 2 ^ 53 < x" using p by (simp add: field_simps)
  then show ?thesis using round53_err[OF p] by linarith
qed

lemma fl_zero: "fl 0 = 0"
  by (simp add: fl_def round53_nonpos)

lemma fl_nonpos: "x \<le> 0 \<Longrightarrow> fl x \<le> 0"
proof (cases "x < 0")
  case True
  then show ?thesis using round53_pos[of "- x"] by (simp add: fl_def)
next
  case False
  assume "x \<le> 0"
  then have "x = 0" using False by simp
  then show ?thesis by (simp add: fl_zero)
qed

lemma fl_le_repr: "0 < c \<Longrightarrow> x \<le> c \<Longrightarrow> fl c = c \<Longrightarrow> fl x \<le> c"
proof (cases "0 < x")
  case True
  assume "0 < c" "x \<le> c" "fl c = c"
  then show ?thesis using True round53_le_repr[of x c] by (simp add: fl_def)
next
  case False
  assume "0 < c"
  then show ?thesis using False fl_nonpos[of x] by simp
qed

lemma fl_err: "\<bar>fl x - x\<bar> \<le> \<bar>x\<bar> / 2 ^ 53"
proof -
  consider "x < 0" | "x = 0" | "0 < x" by linarith
  then show ?thesis
  proof cases
    case 1
    have "- x - (- x) / 2 ^ 53 \<le> round53 (- x) \<and> round53 (- x) \<le> - x + (- x) / 2 ^ 53"
      using round53_err[of "- x"] 1 by simp
    moreover have "fl x = - round53 (- x)" "\<bar>x\<bar> = - x" using 1 by (simp_all add: fl_def)
    ultimately show ?thesis by (simp only: abs_le_iff) linarith
  next
    case 2
    then show ?thesis by (simp add: fl_zero)
  next
    case 3
    have "fl x = round53 x" "\<bar>x\<bar> = x" using 3 by (simp_all add: fl_def)
    then show ?thesis using round53_err[OF 3] by (simp only: abs_le_iff) linarith
  qed
qed

lemma rhe_mono: "x \<le> y \<Longrightarrow> round_half_even x \<le> round_half_even y"
proof (cases "\<lfloor>x\<rfloor> = \<lfloor>y\<rfloor>")
  case True
  assume "x \<le> y"
  then show ?thesis using True by (auto simp: round_half_even_def Let_def)
next
  case False
  assume "x \<le> y"
  then have "\<lfloor>x\<rfloor> \<le> \<lfloor>y\<rfloor>" by (rule floor_mono)
  then have "\<lfloor>x\<rfloor> + 1 \<le> \<lfloor>y\<rfloor>" using False by linarith
  moreover have "round_half_even x \<le> \<lfloor>x\<rfloor> + 1" by (simp add: round_half_even_def Let_def)
  moreover have "\<lfloor>y\<rfloor> \<le> round_half_even y" using rhe_lower[of y] by linarith
  ultimately show ?thesis by linarith
qed

lemma round53_base: "2 ^ 52 \<le> x \<Longrightarrow> x < 2 ^ 53 \<Longrightarrow> round53 x = of_int (round_half_even x)"
  by (subst round53.simps) simp

lemma round53_of_int: "0 < k \<Longrightarrow> k < 2 ^ 53 \<Longrightarrow> x = of_int k \<Longrightarrow> round53 x = x"
proof (induction x arbitrary: k rule: round53.induct)
  case (1 x)
  have xp: "0 < x" and x53: "x < 2 ^ 53" using "1.prems" by simp_all
  show ?case
  proof (cases "x < 2 ^ 52")
    case True
    then have "k < 2 ^ 52" using "1.prems" by simp
    then have "round53 (2 * x) = 2 * x"
      using "1.IH"(2)[of "2 * k"] "1.prems" True xp x53 by simp
    then show ?thesis using True xp x53 by (subst round53.simps) simp
  next
    case False
    then have "round53 x = of_int (round_half_even x)" using x53 by (simp add: round53_base)
    then show ?thesis using "1.prems" by (simp add: rhe_of_int)
  qed
qed

lemma round53_pow52: "round53 (2 ^ 52) = 2 ^ 52"
  using round53_of_int[of "2 ^ 52" "2 ^ 52"] by simp

lemma round53_pow53: "round53 (2 ^ 53) = 2 ^ 53"
  using round53_scale[of "2 ^ 52"] round53_pow52 by simp

lemma round53_mono: "0 < x \<Longrightarrow> x \<le> y \<Longrightarrow> round53 x \<le> round53 y"
proof (induction x arbitrary: y rule: round53.induct)
  case (1 x)
  have yp: "0 < y" using "1.prems" by linarith
  show ?case
  proof (cases "2 ^ 53 \<le> x")
    case True
    then have "round53 (x / 2) \<le> round53 (y / 2)"
      using "1.IH"(1)[of "y / 2"] "1.prems" by simp
    then show ?thesis
      using True "1.prems" round53_scale[of "x / 2"] round53_scale[of "y / 2"] by simp
  next
    case x53: False
    show ?thesis
    proof (cases "x < 2 ^ 52")
      case True
      show ?thesis
      proof (cases "y < 2 ^ 52")
        case y52: True
        have "round53 (2 * x) \<le> round53 (2 * y)"
          using "1.IH"(2)[of "2 * y"] "1.prems" True x53 by simp
        then show ?thesis
          using "1.prems" yp round53_scale[of x] round53_scale[of y] by simp
      next
        case False
        have "round53 x \<le> 2 ^ 52"
          using round53_le_repr[of x "2 ^ 52"] True "1.prems" round53_pow52 by simp
        moreover have "2 ^ 52 \<le> round53 y"
          using round53_ge_repr[of "2 ^ 52" y] False round53_pow52 by simp
        ultimately show ?thesis by linarith
      qed
    next
      case x52: False
      show ?thesis
      proof (cases "y < 2 ^ 53")
        case True
        have "round53 x = of_int (round_half_even x)" using x52 x53 by (simp add: round53_base)
        moreover have "round53 y = of_int (round_half_even y)"
          using x52 True "1.prems" by (simp add: round53_base)
        ultimately show ?thesis using rhe_mono[OF "1.prems"(2)] by simp
      next
        case False
        have "round53 x \<le> 2 ^ 53"
          using round53_le_repr[of x "2 ^ 53"] x53 "1.prems" round53_pow53 by simp
        moreover have "2 ^ 53 \<le> round53 y"
          using round53_ge_repr[of "2 ^ 53" y] False round53_pow53 by simp
        ultimately show ?thesis by linarith
      qed
    qed
  qed
qed

lemma fl_mono: "x \<le> y \<Longrightarrow> fl x \<le> fl y"
proof -
  assume le: "x \<le> y"
  consider "0 < x" | "x \<le> 0" "0 \<le> y" | "y < 0" by linarith
  then show ?thesis
  proof cases
    case 1
    then show ?thesis using le round53_mono[of x y] by (simp add: fl_def)
  next
    case 2
    have "fl x \<le> 0" using 2 by (simp add: fl_nonpos)
    moreover have "0 \<le> fl y"
      using 2 round53_pos[of y] by (cases "y = 0") (simp_all add: fl_def round53_nonpos)
    ultimately show ?thesis by linarith
  next
    case 3
    then show ?thesis using le round53_mono[of "- y" "- x"] by (simp add: fl_def)
  qed
qed

lemma fl_of_int: "\<bar>k\<bar> < 2 ^ 53 \<Longrightarrow> fl (of_int k) = of_int k"
proof -
  assume b: "\<bar>k\<bar> < 2 ^ 53"
  consider "k < 0" | "k = 0" | "0 < k" by linarith
  then show ?thesis
  proof cases
    case 1
    then show ?thesis using b round53_of_int[of "- k" "of_int (- k)"] by (simp add: fl_def)
  next
    case 2
    then show ?thesis by (simp add: fl_zero)
  next
    case 3
    then show ?thesis using b round53_of_int[of k "of_int k"] by (simp add: fl_def)
  qed
qed

text \<open>Rounding moves the floor of a number of moderate size by at most one, upwards.\<close>

lemma floor_fl:
  assumes "\<bar>\<lfloor>x\<rfloor>\<bar> + 1 < 2 ^ 53"
  shows "\<lfloor>x\<rfloor> \<le> \<lfloor>fl x\<rfloor> \<and> \<lfloor>fl x\<rfloor> \<le> \<lfloor>x\<rfloor> + 1"
proof -
  have a: "\<bar>\<lfloor>x\<rfloor>\<bar> < 2 ^ 53" "\<bar>\<lfloor>x\<rfloor> + 1\<bar> < 2 ^ 53" using assms by linarith+
  have "of_int \<lfloor>x\<rfloor> \<le> x" by simp
  from fl_mono[OF this] have "of_int \<lfloor>x\<rfloor> \<le> fl x" by (simp only: fl_of_int[OF a(1)])
  then have lo: "\<lfloor>x\<rfloor> \<le> \<lfloor>fl x\<rfloor>" by (simp only: le_floor_iff)
  have "x \<le> of_int (\<lfloor>x\<rfloor> + 1)" by linarith
  from fl_mono[OF this] have "fl x \<le> of_int (\<lfloor>x\<rfloor> + 1)" by (simp only: fl_of_int[OF a(2)])
  from floor_mono[OF this] have hi: "\<lfloor>fl x\<rfloor> \<le> \<lfloor>x\<rfloor> + 1" by (simp only: floor_of_int)
  show ?thesis using lo hi ..
qed

lemma round53_scale_pow: "0 < x \<Longrightarrow> round53 (2 ^ n * x) = 2 ^ n * round53 x"
proof (induction n)
  case 0
  then show ?case by simp
next
  case (Suc n)
  have "round53 (2 * (2 ^ n * x)) = 2 * round53 (2 ^ n * x)"
    using Suc.prems by (intro round53_scale) simp
  then show ?case using Suc by (simp add: mult.assoc)
qed

text \<open>A double whose scaling by \<open>2^n\<close> falls in \<open>[2^52, 2^53)\<close> is an integer multiple of \<open>2^-n\<close>.\<close>

lemma double_grid:
  assumes "is_double x" "2 ^ 52 \<le> 2 ^ n * x" "2 ^ n * x < 2 ^ 53"
  shows "\<exists>k::int. 2 ^ n * x = of_int k"
proof -
  have xp: "0 < x"
  proof (rule ccontr)
    assume "\<not> 0 < x"
    then have "2 ^ n * x \<le> 0" by (simp add: mult_le_0_iff)
    moreover have "(0::real) < 2 ^ 52" by simp
    ultimately show False using assms(2) by linarith
  qed
  then have "round53 x = x" using assms(1) by (simp add: is_double_def fl_def)
  then have "round53 (2 ^ n * x) = 2 ^ n * x" using round53_scale_pow[OF xp, of n] by simp
  then have "2 ^ n * x = of_int (round_half_even (2 ^ n * x))"
    using round53_base[OF assms(2,3)] by simp
  then show ?thesis ..
qed

section \<open>Constants of the source\<close>

lemma fl_100: "fl 100 = 100"
  using fl_of_int[of 100] by simp

lemma lit_035: "lit (35 / 100) = 6305039478318694 / 2 ^ 54"
  by (simp add: lit_def fl_def round53.simps round_half_even_def Let_def)

lemma lit_035_normal: "lit (7 / 20) = 6305039478318694 / 2 ^ 54"
  using lit_035 by simp

lemma lit_035_pos: "0 < lit (35 / 100)"
  by (simp add: lit_035_normal)

lemma toFixed_100: "toFixed 100 1 = 100"
  by (simp add: toFixed_def)

text \<open>No double lies strictly between the literal \<open>0.35\<close> and the real number 0.35.\<close>

lemma double_le_035:
  assumes "is_double b" "b \<le> 35 / 100"
  shows "b \<le> lit (35 / 100)"
proof (rule ccontr)
  assume "\<not> b \<le> lit (35 / 100)"
  then have gt: "6305039478318694 / 2 ^ 54 < b" by (simp add: lit_035_normal)
  have lo: "2 ^ 52 \<le> 2 ^ 54 * b" using gt by simp
  have hi: "2 ^ 54 * b < 2 ^ 53" using assms(2) by simp
  from double_grid[OF assms(1) lo hi] obtain k :: int where k: "2 ^ 54 * b = of_int k" ..
  have "6305039478318694 < (of_int k :: real)" using gt k by simp
  then have "6305039478318694 < k" by simp
  moreover have "(of_int k :: real) < 6305039478318695" using assms(2) k by simp
  then have "k < 6305039478318695" by simp
  ultimately show False by linarith
qed

text \<open>The largest double below 1.\<close>

lemma double_below_1:
  assumes "is_double r" "r < 1"
  shows "r \<le> (2 ^ 53 - 1) / 2 ^ 53"
proof (cases "r < 1 / 2")
  case True
  then show ?thesis by simp
next
  case False
  then have lo: "2 ^ 52 \<le> 2 ^ 53 * r" by simp
  have hi: "2 ^ 53 * r < 2 ^ 53" using assms(2) by simp
  from double_grid[OF assms(1) lo hi] obtain k :: int where k: "2 ^ 53 * r = of_int k" ..
  have "(of_int k :: real) < 9007199254740992" using hi k by simp
  then have "k < 9007199254740992" by simp
  then have "k \<le> 9007199254740991" by linarith
  then have "(of_int k :: real) \<le> 9007199254740991" by simp
  then show ?thesis using k by simp
qed

lemma mul_100_below_1: "fl ((2 ^ 53 - 1) / 2 ^ 53 * 100) = 7036874417766399 / 2 ^ 46"
  by (simp add: fl_def round53.simps round_half_even_def Let_def)

section \<open>The battery\<close>

lemma battery_step:
  assumes "currentBattery this \<le> 100"
  shows "0 < currentBattery (snd (generateTelemetry this r1 r2 now))
         \<and> currentBattery (snd (generateTelemetry this r1 r2 now)) \<le> 100"
proof -
  define b where "b = js_sub (currentBattery this) (lit (35 / 100))"
  have "currentBattery this - lit (35 / 100) \<le> 100"
    using assms lit_035_pos by linarith
  then have "b \<le> 100"
    unfolding b_def js_sub_def using fl_le_repr[of 100] fl_100 by simp
  moreover have "currentBattery (snd (generateTelemetry this r1 r2 now)) = (if b \<le> 0 then 100 else b)"
    by (simp add: generateTelemetry_def Let_def b_def)
  ultimately show ?thesis by simp
qed

lemma calls_battery:
  "currentBattery this \<le> 100 \<Longrightarrow>
     \<forall>this' \<in> set (generateTelemetry_calls this calls).
       0 < currentBattery this' \<and> currentBattery this' \<le> 100"
proof (induction calls arbitrary: this)
  case Nil
  then show ?case by simp
next
  case (Cons c calls)
  obtain r1 r2 now where c: "c = (r1, r2, now)" by (cases c)
  let ?next = "snd (generateTelemetry this r1 r2 now)"
  have step: "0 < currentBattery ?next \<and> currentBattery ?next \<le> 100"
    using battery_step[OF Cons.prems] .
  then have "\<forall>this' \<in> set (generateTelemetry_calls ?next calls).
      0 < currentBattery this' \<and> currentBattery this' \<le> 100"
    using Cons.IH[of ?next] by simp
  then show ?case using step c by (simp add: Let_def)
qed

lemma reset_at_literal:
  assumes "currentBattery this \<le> lit (35 / 100)"
  shows "currentBattery (snd (generateTelemetry this r1 r2 now)) = 100"
    and "battery (fst (generateTelemetry this r1 r2 now)) = 100"
proof -
  have "js_sub (currentBattery this) (lit (35 / 100)) \<le> 0"
    unfolding js_sub_def using assms by (intro fl_nonpos) simp
  then show "currentBattery (snd (generateTelemetry this r1 r2 now)) = 100"
    by (simp add: generateTelemetry_def Let_def)
  then show "battery (fst (generateTelemetry this r1 r2 now)) = 100"
    by (simp add: generateTelemetry_def Let_def toFixed_100 parseFloat_def fl_100 del: One_nat_def)
qed

lemma floor_draw_range:
  assumes "is_double r" "0 \<le> r" "r < 1"
  shows "0 \<le> \<lfloor>js_mul r 100\<rfloor> \<and> \<lfloor>js_mul r 100\<rfloor> \<le> 99"
proof -
  have "r * 100 \<le> (2 ^ 53 - 1) / 2 ^ 53 * 100"
    using double_below_1[OF assms(1,3)] by simp
  from fl_mono[OF this] have "js_mul r 100 \<le> 7036874417766399 / 2 ^ 46"
    by (simp only: js_mul_def mul_100_below_1)
  then have "js_mul r 100 < 100" by simp
  then have "\<lfloor>js_mul r 100\<rfloor> < 100" by (simp add: floor_less_iff)
  moreover have "fl 0 \<le> fl (r * 100)" using assms(2) by (intro fl_mono) simp
  then have "0 \<le> \<lfloor>js_mul r 100\<rfloor>" by (simp add: js_mul_def fl_zero)
  ultimately show ?thesis by simp
qed

section \<open>Base values and readings\<close>

lemma js_rem_nonneg: "0 \<le> a \<Longrightarrow> 0 < n \<Longrightarrow> js_rem a n = a mod n"
  by (cases "a = 0") (simp_all add: js_rem_def)

lemma js_rem_neg: "a < 0 \<Longrightarrow> 0 < n \<Longrightarrow> js_rem a n = - ((- a) mod n)"
  by (simp add: js_rem_def)

lemma js_rem_bounds: "0 < n \<Longrightarrow> - n < js_rem a n \<and> js_rem a n < n"
proof -
  assume n: "0 < n"
  have "0 \<le> \<bar>a\<bar> mod n \<and> \<bar>a\<bar> mod n < n" using n by simp
  moreover have "js_rem a n = sgn a * (\<bar>a\<bar> mod n)" using n by (simp add: js_rem_def)
  ultimately show ?thesis by (cases "a < 0"; cases "a = 0") (simp_all add: sgn_if)
qed

lemma baseTemp_new:
  "baseTemp (new_SimulatedDevice cfg tok r) = of_int (20 + js_rem (deviceId cfg) 10)"
proof -
  have "\<bar>20 + js_rem (deviceId cfg) 10\<bar> < 2 ^ 53"
    using js_rem_bounds[of 10 "deviceId cfg"] by simp
  from fl_of_int[OF this] show ?thesis
    by (simp add: new_SimulatedDevice_def Let_def js_add_def)
qed

lemma baseHum_new:
  "baseHum (new_SimulatedDevice cfg tok r) = of_int (40 + js_rem (deviceId cfg) 15)"
proof -
  have "\<bar>40 + js_rem (deviceId cfg) 15\<bar> < 2 ^ 53"
    using js_rem_bounds[of 15 "deviceId cfg"] by simp
  from fl_of_int[OF this] show ?thesis
    by (simp add: new_SimulatedDevice_def Let_def js_add_def)
qed

lemma calls_bases:
  "\<forall>this' \<in> set (generateTelemetry_calls this calls).
     baseTemp this' = baseTemp this \<and> baseHum this' = baseHum this"
proof (induction calls arbitrary: this)
  case Nil
  then show ?case by simp
next
  case (Cons c calls)
  obtain r1 r2 now where c: "c = (r1, r2, now)" by (cases c)
  let ?next = "snd (generateTelemetry this r1 r2 now)"
  have step: "baseTemp ?next = baseTemp this \<and> baseHum ?next = baseHum this"
    by (simp add: generateTelemetry_def Let_def)
  then show ?case using Cons.IH[of ?next] c by (simp add: Let_def)
qed

text \<open>
  A reading computed from a whole base value \<open>k\<close> and a variance factor \<open>v\<close> in
  \<open>[0.8, 1.2)\<close>: the product is rounded, written with one decimal and read back.
\<close>

lemma reading_bounds:
  assumes k: "0 < k" "k \<le> 100" and v: "8 / 10 \<le> v" "v < 12 / 10"
  shows "8 / 10 * of_int k - 1 / 20 \<le> parseFloat (toFixed (js_mul (of_int k) v) 1)
         \<and> parseFloat (toFixed (js_mul (of_int k) v) 1) \<le> 12 / 10 * of_int k + 1 / 20"
proof -
  define B :: real where "B = of_int k"
  define x where "x = B * v"
  define y where "y = fl x"
  define n where "n = \<lfloor>y * 10 + 1 / 2\<rfloor>"
  define t :: real where "t = of_int n / 10"
  have B: "1 \<le> B" "B \<le> 100" using k by (simp_all add: B_def)
  have "0 \<le> B * (v - 8 / 10)" using v(1) B(1) by (intro mult_nonneg_nonneg) simp_all
  then have x_lo: "8 / 10 * B \<le> x" by (simp add: x_def algebra_simps)
  have "0 < B * (12 / 10 - v)" using v(2) B(1) by (intro mult_pos_pos) simp_all
  then have x_hi: "x < 12 / 10 * B" by (simp add: x_def algebra_simps)
  note x = x_lo x_hi
  have xpos: "0 < x" and x120: "x \<le> 120" using x B by linarith+
  have small: "\<bar>z\<bar> / 2 ^ 53 \<le> 1 / 1000" if "\<bar>z\<bar> \<le> 120" for z :: real
  proof -
    have "\<bar>z\<bar> / 2 ^ 53 \<le> 120 / 2 ^ 53" using that by (intro divide_right_mono) simp_all
    also have "\<dots> \<le> 1 / 1000" by simp
    finally show ?thesis .
  qed
  have "\<bar>y - x\<bar> \<le> \<bar>x\<bar> / 2 ^ 53" unfolding y_def by (rule fl_err)
  moreover have "\<bar>x\<bar> / 2 ^ 53 \<le> 1 / 1000" using xpos x120 by (intro small) simp
  ultimately have y: "x - 1 / 1000 \<le> y" "y \<le> x + 1 / 1000" by (simp_all only: abs_le_iff) linarith+
  have ypos: "0 \<le> y" and y121: "y \<le> 121" using y x B by linarith+
  then have ybig: "\<bar>y\<bar> < 10 ^ 21" by simp
  have tf: "toFixed y 1 = t"
    using ypos ybig by (simp add: toFixed_def t_def n_def)
  have "of_int (8 * k) \<le> y * 10 + 1 / 2" using y x by (simp add: B_def) 
  then have n_lo: "8 * k \<le> n" unfolding n_def by (simp only: le_floor_iff)
  have "y * 10 + 1 / 2 < of_int (12 * k) + 1" using y x by (simp add: B_def)
  then have "n < 12 * k + 1" unfolding n_def by (simp only: floor_less_iff of_int_add of_int_1)
  then have n_hi: "n \<le> 12 * k" by simp
  have "(of_int (8 * k) :: real) \<le> of_int n" using n_lo by (simp only: of_int_le_iff)
  then have t_lo: "8 / 10 * B \<le> t" by (simp add: t_def B_def)
  have "(of_int n :: real) \<le> of_int (12 * k)" using n_hi by (simp only: of_int_le_iff)
  then have t_hi: "t \<le> 12 / 10 * B" by (simp add: t_def B_def)
  have tabs: "\<bar>t\<bar> \<le> 120" using t_lo t_hi B by (simp only: abs_le_iff) linarith
  have "\<bar>fl t - t\<bar> \<le> \<bar>t\<bar> / 2 ^ 53" by (rule fl_err)
  moreover have "\<bar>t\<bar> / 2 ^ 53 \<le> 1 / 1000" using tabs by (rule small)
  ultimately have "t - 1 / 1000 \<le> fl t" "fl t \<le> t + 1 / 1000" by (simp_all only: abs_le_iff) linarith+
  then have "8 / 10 * B - 1 / 20 \<le> fl t \<and> fl t \<le> 12 / 10 * B + 1 / 20"
    using t_lo t_hi by linarith
  then show ?thesis
    by (simp only: parseFloat_def js_mul_def B_def[symmetric] x_def[symmetric] y_def[symmetric] tf)
qed

lemma lit_08: "lit (8 / 10) = 7205759403792794 / 2 ^ 53"
  by (simp add: lit_def fl_def round53.simps round_half_even_def Let_def)

lemma lit_04: "lit (4 / 10) = 7205759403792794 / 2 ^ 54"
  by (simp add: lit_def fl_def round53.simps round_half_even_def Let_def)

lemma fl_lit_08: "fl (7205759403792794 / 2 ^ 53) = 7205759403792794 / 2 ^ 53"
  by (simp add: fl_def round53.simps round_half_even_def Let_def)

lemma mul_04_below_1:
  "fl ((2 ^ 53 - 1) / 2 ^ 53 * (7205759403792794 / 2 ^ 54)) = 7205759403792793 / 2 ^ 54"
  by (simp add: fl_def round53.simps round_half_even_def Let_def)

lemma add_08_04_below_1:
  "fl (7205759403792794 / 2 ^ 53 + 7205759403792793 / 2 ^ 54) = 5404319552844595 / 2 ^ 52"
  by (simp add: fl_def round53.simps round_half_even_def Let_def)

text \<open>For a random draw in \<open>[0, 1)\<close> the variance factor lies in \<open>[0.8, 1.2)\<close>.\<close>

lemma variance_range:
  assumes "is_double r" "0 \<le> r" "r < 1"
  shows "8 / 10 \<le> variance r \<and> variance r < 12 / 10"
proof -
  define l4 :: real where "l4 = 7205759403792794 / 2 ^ 54"
  define l8 :: real where "l8 = 7205759403792794 / 2 ^ 53"
  have var: "variance r = fl (l8 + fl (r * l4))"
    by (simp only: variance_def js_add_def js_mul_def lit_08 lit_04 l4_def l8_def)
  have l4pos: "0 \<le> l4" by (simp add: l4_def)
  have "r * l4 \<le> (2 ^ 53 - 1) / 2 ^ 53 * l4"
    using double_below_1[OF assms(1,3)] l4pos by (rule mult_right_mono)
  from fl_mono[OF this] have "fl (r * l4) \<le> 7205759403792793 / 2 ^ 54"
    by (simp only: l4_def mul_04_below_1)
  then have "l8 + fl (r * l4) \<le> l8 + 7205759403792793 / 2 ^ 54" by simp
  from fl_mono[OF this] have "variance r \<le> 5404319552844595 / 2 ^ 52"
    by (simp only: var l8_def add_08_04_below_1)
  then have hi: "variance r < 12 / 10" by simp
  have "0 \<le> r * l4" using assms(2) l4pos by simp
  from fl_mono[OF this] have "0 \<le> fl (r * l4)" by (simp only: fl_zero)
  then have "l8 \<le> l8 + fl (r * l4)" by simp
  from fl_mono[OF this] have "l8 \<le> variance r" by (simp only: var l8_def fl_lit_08)
  then have lo: "8 / 10 \<le> variance r" by (simp add: l8_def)
  show ?thesis using lo hi ..
qed

section \<open>Delivery and the fleet\<close>

lemma pushData_outcome:
  "outcome (pushData env this inp) =
     (case post inp of
        Inl error \<Rightarrow>
          Inr (Console_error
            [S ''['', S (name (config this)), S '']='', I (deviceId (config this)),
             S '' Error:'', S (message error)])
      | Inr response \<Rightarrow>
          Inr (Console_log
            [S ''['', S (name (config this)), S '' @ '', S (location (config this)), S '']='',
             I (deviceId (config this)), S '' Sent: T:'',
             N (temperature (fst (generateTelemetry this (draw_temp inp) (draw_hum inp) (clock inp)))),
             S '' H:'',
             N (humidity (fst (generateTelemetry this (draw_temp inp) (draw_hum inp) (clock inp)))),
             S '' B:'',
             N (battery (fst (generateTelemetry this (draw_temp inp) (draw_hum inp) (clock inp)))),
             S '' at:'', S (clock inp)]))"
  by (simp add: pushData_def generateTelemetry_def Let_def try_catch_def split: sum.split)

lemma pushData_fulfilled: "\<exists>line. outcome (pushData env this inp) = Inr line"
  by (simp add: pushData_outcome split: sum.split)

lemma pushData_device:
  "device (pushData env this inp)
     = snd (generateTelemetry this (draw_temp inp) (draw_hum inp) (clock inp))"
  by (simp add: pushData_def Let_def split: prod.split)

lemma pushData_config: "config (device (pushData env this inp)) = config this"
  by (simp add: pushData_device generateTelemetry_def Let_def)

lemma forEach_config:
  "map (\<lambda>e. config (device e)) (map (\<lambda>(i, d). pushData env d (inp i)) (enumerate n ds)) = map config ds"
  by (induction ds arbitrary: n) (simp_all add: pushData_config comp_def)

lemma forEach_fulfilled:
  "\<forall>e \<in> set (map (\<lambda>(i, d). pushData env d (inp i)) (enumerate n ds)).
     \<exists>line. outcome e = Inr line"
  by (induction ds arbitrary: n) (simp_all add: pushData_fulfilled)

lemma tick_ticks:
  "ticks (tick env p inp)
     = ticks p @ [map (\<lambda>(i, d). pushData env d (inp i)) (enumerate 0 (devices p))]"
  by (simp add: tick_def Let_def)

lemma tick_devices:
  "devices (tick env p inp)
     = map device (map (\<lambda>(i, d). pushData env d (inp i)) (enumerate 0 (devices p)))"
  by (simp add: tick_def Let_def)

lemma tick_configs: "map config (devices (tick env p inp)) = map config (devices p)"
  using forEach_config[of env inp 0 "devices p"] by (simp add: tick_devices comp_def)

lemma tick_rest:
  "console (tick env p inp) = console p" "routes (tick env p inp) = routes p"
  "listening (tick env p inp) = listening p" "intervals (tick env p inp) = intervals p"
  by (simp_all add: tick_def Let_def)

lemma call_tick: "call cb env p inp = tick env p inp"
  by (cases cb) (simp add: call_def)

lemma fire_configs: "map config (devices (fire cb env p inps k n)) = map config (devices p)"
  by (induction n arbitrary: p k) (simp_all add: call_tick tick_configs)

lemma fire_intervals: "intervals (fire cb env p inps k n) = intervals p"
  by (induction n arbitrary: p k) (simp_all add: call_tick tick_rest)

lemma fire_count: "length (ticks (fire cb env p inps k n)) = length (ticks p) + n"
  by (induction n arbitrary: p k) (simp_all add: call_tick tick_ticks)

lemma fire_Suc:
  "fire cb env p inps k (Suc n) = call cb env (fire cb env p inps k n) (inps (k + n))"
proof (induction n arbitrary: p k)
  case 0
  then show ?case by simp
next
  case (Suc n)
  have "fire cb env p inps k (Suc (Suc n))
      = fire cb env (call cb env p (inps k)) inps (Suc k) (Suc n)" by simp
  also have "\<dots> = call cb env (fire cb env (call cb env p (inps k)) inps (Suc k) n)
      (inps (Suc k + n))" by (rule Suc.IH)
  finally show ?case by simp
qed

lemma fire_covers:
  "\<forall>effects \<in> set (ticks p). map (\<lambda>e. config (device e)) effects = map config (devices p) \<Longrightarrow>
   \<forall>effects \<in> set (ticks (fire cb env p inps k n)).
     map (\<lambda>e. config (device e)) effects = map config (devices p)"
proof (induction n arbitrary: p k)
  case 0
  then show ?case by simp
next
  case (Suc n)
  have "\<forall>effects \<in> set (ticks (tick env p (inps k))).
      map (\<lambda>e. config (device e)) effects = map config (devices (tick env p (inps k)))"
    using Suc.prems forEach_config[of env "inps k" 0 "devices p"]
    by (simp add: tick_ticks tick_configs comp_def)
  from Suc.IH[OF this] show ?case by (simp add: call_tick tick_configs)
qed

lemma on_listening_ticks:
  "ticks (on_listening env p inp)
     = ticks p @ [map (\<lambda>(i, d). pushData env d (inp i)) (enumerate 0 (devices p))]"
  by (simp add: on_listening_def startSimulation_def Let_def tick_def)

lemma on_listening_devices:
  "devices (on_listening env p inp)
     = map device (map (\<lambda>(i, d). pushData env d (inp i)) (enumerate 0 (devices p)))"
  by (simp add: on_listening_def startSimulation_def Let_def tick_def)

lemma on_listening_intervals:
  "intervals (on_listening env p inp) = intervals p @ [(UPDATE_INTERVAL_MS, Fleet_tick)]"
  by (simp add: on_listening_def startSimulation_def Let_def tick_def)

lemma on_listening_configs: "map config (devices (on_listening env p inp)) = map config (devices p)"
  using forEach_config[of env inp 0 "devices p"]
  by (simp add: on_listening_def startSimulation_def Let_def tick_def comp_def)

text \<open>The fleet built from the registry: the entries whose token is present and not empty.\<close>

lemma instantiate_configs:
  "map config (devices (foldl (instantiate env rnd) p cfgs))
     = map config (devices p)
       @ filter (\<lambda>c. env (envTokenKey c) \<noteq> None \<and> env (envTokenKey c) \<noteq> Some []) cfgs"
proof (induction cfgs arbitrary: p)
  case Nil
  then show ?case by simp
next
  case (Cons c cfgs)
  show ?case
    by (simp add: Cons.IH)
      (auto simp: instantiate_def Let_def new_SimulatedDevice_def split: option.split)
qed

lemma instantiate_console_mono:
  "set (console p) \<subseteq> set (console (foldl (instantiate env rnd) p cfgs))"
proof (induction cfgs arbitrary: p)
  case Nil
  then show ?case by simp
next
  case (Cons c cfgs)
  have "set (console p) \<subseteq> set (console (instantiate env rnd p c))"
    by (auto simp: instantiate_def Let_def split: option.split)
  then show ?case using Cons.IH[of "instantiate env rnd p c"] by auto
qed

lemma instantiate_warns:
  assumes "c \<in> set cfgs" "env (envTokenKey c) = None"
  shows "Console_warn
           [S ''Warning: No token found in .env for Device ID '', I (deviceId c),
            S '' (Expected key: '', S (envTokenKey c), S ''). Skipping.'']
         \<in> set (console (foldl (instantiate env rnd) p cfgs))"
  using assms
proof (induction cfgs arbitrary: p)
  case Nil
  then show ?case by simp
next
  case (Cons a cfgs)
  show ?case
  proof (cases "c = a")
    case True
    have "Console_warn
           [S ''Warning: No token found in .env for Device ID '', I (deviceId c),
            S '' (Expected key: '', S (envTokenKey c), S ''). Skipping.'']
          \<in> set (console (instantiate env rnd p a))"
      using True Cons.prems(2) by (simp add: instantiate_def Let_def)
    then show ?thesis
      using instantiate_console_mono[of "instantiate env rnd p a" env rnd cfgs] by auto
  next
    case False
    then have "c \<in> set cfgs" using Cons.prems(1) by simp
    from Cons.IH[OF this Cons.prems(2)] show ?thesis by simp
  qed
qed

lemma instantiate_rest:
  "intervals (foldl (instantiate env rnd) p cfgs) = intervals p
   \<and> ticks (foldl (instantiate env rnd) p cfgs) = ticks p"
proof (induction cfgs arbitrary: p)
  case Nil
  then show ?case by simp
next
  case (Cons c cfgs)
  have "intervals (instantiate env rnd p c) = intervals p
      \<and> ticks (instantiate env rnd p c) = ticks p"
    by (simp add: instantiate_def Let_def split: option.split)
  then show ?case using Cons.IH[of "instantiate env rnd p c"] by simp
qed

lemma main_Inr:
  assumes "main env (Inr rawConfig) JSON_parse rnd = Inr p" "JSON_parse rawConfig = Inr deviceConfigs"
  shows "map config (devices p)
           = filter (\<lambda>c. env (envTokenKey c) \<noteq> None \<and> env (envTokenKey c) \<noteq> Some []) deviceConfigs"
    and "set (console (foldl (instantiate env rnd)
            \<lparr>devices = [], console = [Console_log [S ''Loading '', I (int (length deviceConfigs)),
                                          S '' devices from registry...'']],
             routes = [], listening = None, intervals = [], ticks = []\<rparr> deviceConfigs))
           \<subseteq> set (console p)"
    and "intervals p = []" and "ticks p = []"
proof -
  let ?p1 = "\<lparr>devices = [], console = [Console_log [S ''Loading '', I (int (length deviceConfigs)),
                                          S '' devices from registry...'']],
             routes = [], listening = None, intervals = [], ticks = []\<rparr>"
  let ?p2 = "foldl (instantiate env rnd) ?p1 deviceConfigs"
  have p: "p = ?p2\<lparr>console := console ?p2 @
                 [Console_log [S ''Successfully initialized '',
                               I (int (length (devices ?p2))), S '' devices.'']],
               routes := routes ?p2 @ [''/health''],
               listening := Some (env_or env ''PORT'' ''4000'')\<rparr>"
    using assms by (simp add: main_def Let_def)
  show "map config (devices p)
           = filter (\<lambda>c. env (envTokenKey c) \<noteq> None \<and> env (envTokenKey c) \<noteq> Some []) deviceConfigs"
    using instantiate_configs[of env rnd ?p1 deviceConfigs] by (simp add: p)
  show "set (console ?p2) \<subseteq> set (console p)" by (auto simp: p)
  show "intervals p = []" "ticks p = []"
    using instantiate_rest[of env rnd ?p1 deviceConfigs] by (simp_all add: p)
qed

section \<open>The claims\<close>

text \<open>
  C1. Battery invariant: on a device whose battery level lies in \<open>[0, 100)\<close>, after each
  call of any sequence of calls of \<open>generateTelemetry()\<close> the battery level is greater
  than 0 and at most 100.
\<close>

theorem battery_invariant:
  assumes "0 \<le> currentBattery this" and "currentBattery this < 100"
  shows "\<forall>this' \<in> set (generateTelemetry_calls this calls).
           0 < currentBattery this' \<and> currentBattery this' \<le> 100"
  using assms calls_battery[of this calls] by simp

theorem battery_invariant_witness:
  "0 \<le> currentBattery \<lparr>config = \<lparr>deviceId = 7, serial = ''S7'', name = ''Sensor7'', location = ''Lab''\<rparr>,
        token = ''abc123'', baseTemp = 27, baseHum = 47, currentBattery = 1 / 2\<rparr>
   \<and> currentBattery \<lparr>config = \<lparr>deviceId = 7, serial = ''S7'', name = ''Sensor7'', location = ''Lab''\<rparr>,
        token = ''abc123'', baseTemp = 27, baseHum = 47, currentBattery = 1 / 2\<rparr> < 100
   \<and> 0 < currentBattery (snd (generateTelemetry
          \<lparr>config = \<lparr>deviceId = 7, serial = ''S7'', name = ''Sensor7'', location = ''Lab''\<rparr>,
           token = ''abc123'', baseTemp = 27, baseHum = 47, currentBattery = 1 / 2\<rparr>
          (1 / 4) (3 / 4) ''2026-01-01T00:00:00.000Z''))
   \<and> currentBattery (snd (generateTelemetry
          \<lparr>config = \<lparr>deviceId = 7, serial = ''S7'', name = ''Sensor7'', location = ''Lab''\<rparr>,
           token = ''abc123'', baseTemp = 27, baseHum = 47, currentBattery = 1 / 2\<rparr>
          (1 / 4) (3 / 4) ''2026-01-01T00:00:00.000Z'')) \<le> 100"
  using battery_invariant[of
      "\<lparr>config = \<lparr>deviceId = 7, serial = ''S7'', name = ''Sensor7'', location = ''Lab''\<rparr>,
        token = ''abc123'', baseTemp = 27, baseHum = 47, currentBattery = 1 / 2\<rparr>"
      "[(1 / 4, 3 / 4, ''2026-01-01T00:00:00.000Z'')]"]
  by (simp add: Let_def)

text \<open>
  C2. Battery reset: when the battery level of the device is a number that is at most
  0.35, the next call of \<open>generateTelemetry()\<close> leaves the battery level at exactly 100
  and returns a reading whose field \<open>battery\<close> is exactly 100: the reset value replaces
  the decremented one.
\<close>

theorem battery_reset:
  assumes "is_double (currentBattery this)" and "currentBattery this \<le> 35 / 100"
  shows "currentBattery (snd (generateTelemetry this r1 r2 now)) = 100
         \<and> battery (fst (generateTelemetry this r1 r2 now)) = 100"
  using reset_at_literal[OF double_le_035[OF assms]] by simp

theorem battery_reset_witness:
  "is_double (currentBattery \<lparr>config = \<lparr>deviceId = 7, serial = ''S7'', name = ''Sensor7'', location = ''Lab''\<rparr>,
        token = ''abc123'', baseTemp = 27, baseHum = 47, currentBattery = 1 / 4\<rparr>)
   \<and> currentBattery \<lparr>config = \<lparr>deviceId = 7, serial = ''S7'', name = ''Sensor7'', location = ''Lab''\<rparr>,
        token = ''abc123'', baseTemp = 27, baseHum = 47, currentBattery = 1 / 4\<rparr> \<le> 35 / 100
   \<and> currentBattery (snd (generateTelemetry
          \<lparr>config = \<lparr>deviceId = 7, serial = ''S7'', name = ''Sensor7'', location = ''Lab''\<rparr>,
           token = ''abc123'', baseTemp = 27, baseHum = 47, currentBattery = 1 / 4\<rparr>
          (1 / 4) (3 / 4) ''2026-01-01T00:00:00.000Z'')) = 100
   \<and> battery (fst (generateTelemetry
          \<lparr>config = \<lparr>deviceId = 7, serial = ''S7'', name = ''Sensor7'', location = ''Lab''\<rparr>,
           token = ''abc123'', baseTemp = 27, baseHum = 47, currentBattery = 1 / 4\<rparr>
          (1 / 4) (3 / 4) ''2026-01-01T00:00:00.000Z'')) = 100"
proof -
  have d: "is_double (1 / 4)"
    by (simp add: is_double_def fl_def round53.simps round_half_even_def Let_def)
  show ?thesis
    using d battery_reset[of
      "\<lparr>config = \<lparr>deviceId = 7, serial = ''S7'', name = ''Sensor7'', location = ''Lab''\<rparr>,
        token = ''abc123'', baseTemp = 27, baseHum = 47, currentBattery = 1 / 4\<rparr>"
      "1 / 4" "3 / 4" "''2026-01-01T00:00:00.000Z''"]
    by simp
qed

text \<open>
  C3, as the source has it. The remainder \<open>%\<close> takes the sign of the device ID: for a
  device ID \<open>N\<close> that is not negative the base temperature is \<open>20 + (N mod 10)\<close> and the
  base humidity \<open>40 + (N mod 15)\<close>; for a negative one they are \<open>20 - ((-N) mod 10)\<close> and
  \<open>40 - ((-N) mod 15)\<close>. Two constructions with the same device ID give the same base
  values, whatever the other fields, the tokens and the random draws; the initial
  battery levels can differ.
\<close>

theorem base_values:
  "(0 \<le> deviceId cfg \<longrightarrow>
      baseTemp (new_SimulatedDevice cfg tok r) = of_int (20 + deviceId cfg mod 10)
      \<and> baseHum (new_SimulatedDevice cfg tok r) = of_int (40 + deviceId cfg mod 15))
   \<and> (deviceId cfg < 0 \<longrightarrow>
      baseTemp (new_SimulatedDevice cfg tok r) = of_int (20 - (- deviceId cfg) mod 10)
      \<and> baseHum (new_SimulatedDevice cfg tok r) = of_int (40 - (- deviceId cfg) mod 15))
   \<and> (deviceId cfg' = deviceId cfg \<longrightarrow>
      baseTemp (new_SimulatedDevice cfg' tok' r') = baseTemp (new_SimulatedDevice cfg tok r)
      \<and> baseHum (new_SimulatedDevice cfg' tok' r') = baseHum (new_SimulatedDevice cfg tok r))
   \<and> currentBattery (new_SimulatedDevice cfg tok 0)
        \<noteq> currentBattery (new_SimulatedDevice cfg tok (1 / 2))"
proof -
  have b0: "currentBattery (new_SimulatedDevice cfg tok 0) = 0"
    by (simp add: new_SimulatedDevice_def Math_floor_def js_mul_def fl_zero Let_def)
  have "js_mul (1 / 2) 100 = 50" using fl_of_int[of 50] by (simp add: js_mul_def)
  then have b1: "currentBattery (new_SimulatedDevice cfg tok (1 / 2)) = 50"
    by (simp add: new_SimulatedDevice_def Math_floor_def Let_def)
  show ?thesis
    using b0 b1 by (simp add: baseTemp_new baseHum_new js_rem_nonneg js_rem_neg)
qed

theorem base_values_witness:
  "baseTemp (new_SimulatedDevice
       \<lparr>deviceId = 7, serial = ''S7'', name = ''Sensor7'', location = ''Lab''\<rparr> ''abc123'' (1 / 2)) = 27
   \<and> baseHum (new_SimulatedDevice
       \<lparr>deviceId = 7, serial = ''S7'', name = ''Sensor7'', location = ''Lab''\<rparr> ''abc123'' (1 / 2)) = 47
   \<and> baseTemp (new_SimulatedDevice
       \<lparr>deviceId = - 3, serial = ''S3'', name = ''Sensor3'', location = ''Lab''\<rparr> ''abc123'' (1 / 2)) = 17
   \<and> baseHum (new_SimulatedDevice
       \<lparr>deviceId = - 3, serial = ''S3'', name = ''Sensor3'', location = ''Lab''\<rparr> ''abc123'' (1 / 2)) = 37
   \<and> baseTemp (new_SimulatedDevice
       \<lparr>deviceId = 7, serial = ''S7b'', name = ''Other'', location = ''Roof''\<rparr> ''xyz'' 0)
      = baseTemp (new_SimulatedDevice
       \<lparr>deviceId = 7, serial = ''S7'', name = ''Sensor7'', location = ''Lab''\<rparr> ''abc123'' (1 / 2))"
  using base_values[of
      "\<lparr>deviceId = 7, serial = ''S7'', name = ''Sensor7'', location = ''Lab''\<rparr>" "''abc123''" "1 / 2"
      "\<lparr>deviceId = 7, serial = ''S7b'', name = ''Other'', location = ''Roof''\<rparr>" "''xyz''" 0]
    base_values[of
      "\<lparr>deviceId = - 3, serial = ''S3'', name = ''Sensor3'', location = ''Lab''\<rparr>" "''abc123''" "1 / 2"
      "\<lparr>deviceId = - 3, serial = ''S3'', name = ''Sensor3'', location = ''Lab''\<rparr>" "''abc123''" "1 / 2"]
  by simp

text \<open>
  C3 as it is stated, with \<open>mod\<close> the remainder between 0 and the modulus, fails at the
  device ID \<open>-3\<close>: the base values are 17 and 37, not \<open>20 + ((-3) mod 10) = 27\<close> and
  \<open>40 + ((-3) mod 15) = 52\<close>.
\<close>

theorem base_values_counterexample:
  "baseTemp (new_SimulatedDevice
       \<lparr>deviceId = - 3, serial = ''S3'', name = ''Sensor3'', location = ''Lab''\<rparr> ''abc123'' (1 / 2))
     \<noteq> of_int (20 + (- 3) mod 10)
   \<and> baseHum (new_SimulatedDevice
       \<lparr>deviceId = - 3, serial = ''S3'', name = ''Sensor3'', location = ''Lab''\<rparr> ''abc123'' (1 / 2))
     \<noteq> of_int (40 + (- 3) mod 15)"
  by (simp add: baseTemp_new baseHum_new js_rem_def)

text \<open>
  C4. Range of the readings: on a device as constructed, after any calls, when the two
  variance factors of a call of \<open>generateTelemetry()\<close> lie in \<open>[0.8, 1.2)\<close>, the
  temperature returned lies between 0.8 and 1.2 times the base temperature and the
  humidity between 0.8 and 1.2 times the base humidity, up to the tolerance 0.05 of the
  rounding to one decimal. The variance factor of every random draw in \<open>[0, 1)\<close> does lie
  in \<open>[0.8, 1.2)\<close>.
\<close>

theorem reading_range:
  assumes "this = new_SimulatedDevice cfg tok r
           \<or> this \<in> set (generateTelemetry_calls (new_SimulatedDevice cfg tok r) calls)"
    and "8 / 10 \<le> variance r1" and "variance r1 < 12 / 10"
    and "8 / 10 \<le> variance r2" and "variance r2 < 12 / 10"
  shows "8 / 10 * baseTemp this - 1 / 20 \<le> temperature (fst (generateTelemetry this r1 r2 now))
         \<and> temperature (fst (generateTelemetry this r1 r2 now)) \<le> 12 / 10 * baseTemp this + 1 / 20
         \<and> 8 / 10 * baseHum this - 1 / 20 \<le> humidity (fst (generateTelemetry this r1 r2 now))
         \<and> humidity (fst (generateTelemetry this r1 r2 now)) \<le> 12 / 10 * baseHum this + 1 / 20
         \<and> (\<forall>r'. is_double r' \<and> 0 \<le> r' \<and> r' < 1 \<longrightarrow>
               8 / 10 \<le> variance r' \<and> variance r' < 12 / 10)"
proof -
  define kt where "kt = 20 + js_rem (deviceId cfg) 10"
  define kh where "kh = 40 + js_rem (deviceId cfg) 15"
  have bases: "baseTemp this = of_int kt \<and> baseHum this = of_int kh"
    using assms(1) calls_bases[of "new_SimulatedDevice cfg tok r" calls]
    by (auto simp: baseTemp_new baseHum_new kt_def kh_def)
  have kt: "0 < kt" "kt \<le> 100" using js_rem_bounds[of 10 "deviceId cfg"] by (simp_all add: kt_def)
  have kh: "0 < kh" "kh \<le> 100" using js_rem_bounds[of 15 "deviceId cfg"] by (simp_all add: kh_def)
  have t: "temperature (fst (generateTelemetry this r1 r2 now))
            = parseFloat (toFixed (js_mul (of_int kt) (variance r1)) 1)"
    using bases by (simp add: generateTelemetry_def Let_def del: One_nat_def)
  have h: "humidity (fst (generateTelemetry this r1 r2 now))
            = parseFloat (toFixed (js_mul (of_int kh) (variance r2)) 1)"
    using bases by (simp add: generateTelemetry_def Let_def del: One_nat_def)
  have range: "8 / 10 * baseTemp this - 1 / 20 \<le> temperature (fst (generateTelemetry this r1 r2 now))
         \<and> temperature (fst (generateTelemetry this r1 r2 now)) \<le> 12 / 10 * baseTemp this + 1 / 20
         \<and> 8 / 10 * baseHum this - 1 / 20 \<le> humidity (fst (generateTelemetry this r1 r2 now))
         \<and> humidity (fst (generateTelemetry this r1 r2 now)) \<le> 12 / 10 * baseHum this + 1 / 20"
    using reading_bounds[OF kt assms(2,3)] reading_bounds[OF kh assms(4,5)] bases
    by (simp only: t h)
  have "\<forall>r'. is_double r' \<and> 0 \<le> r' \<and> r' < 1 \<longrightarrow>
               8 / 10 \<le> variance r' \<and> variance r' < 12 / 10"
    using variance_range by blast
  then show ?thesis using range by (simp only: simp_thms)
qed

theorem reading_range_witness:
  "8 / 10 \<le> variance (1 / 4) \<and> variance (1 / 4) < 12 / 10
   \<and> 8 / 10 \<le> variance (3 / 4) \<and> variance (3 / 4) < 12 / 10
   \<and> 8 / 10 * 27 - 1 / 20 \<le> temperature (fst (generateTelemetry (new_SimulatedDevice
        \<lparr>deviceId = 7, serial = ''S7'', name = ''Sensor7'', location = ''Lab''\<rparr> ''abc123'' (1 / 2))
        (1 / 4) (3 / 4) ''2026-01-01T00:00:00.000Z''))
   \<and> temperature (fst (generateTelemetry (new_SimulatedDevice
        \<lparr>deviceId = 7, serial = ''S7'', name = ''Sensor7'', location = ''Lab''\<rparr> ''abc123'' (1 / 2))
        (1 / 4) (3 / 4) ''2026-01-01T00:00:00.000Z'')) \<le> 12 / 10 * 27 + 1 / 20"
proof -
  have d: "is_double (1 / 4)" "is_double (3 / 4)"
    by (simp_all add: is_double_def fl_def round53.simps round_half_even_def Let_def)
  have v1: "8 / 10 \<le> variance (1 / 4) \<and> variance (1 / 4) < 12 / 10"
    using variance_range[OF d(1)] by simp
  have v2: "8 / 10 \<le> variance (3 / 4) \<and> variance (3 / 4) < 12 / 10"
    using variance_range[OF d(2)] by simp
  have b: "baseTemp (new_SimulatedDevice
        \<lparr>deviceId = 7, serial = ''S7'', name = ''Sensor7'', location = ''Lab''\<rparr> ''abc123'' (1 / 2)) = 27"
    by (simp add: baseTemp_new js_rem_def)
  show ?thesis
    using v1 v2 b reading_range[of
      "new_SimulatedDevice \<lparr>deviceId = 7, serial = ''S7'', name = ''Sensor7'', location = ''Lab''\<rparr> ''abc123'' (1 / 2)"
      "\<lparr>deviceId = 7, serial = ''S7'', name = ''Sensor7'', location = ''Lab''\<rparr>" "''abc123''" "1 / 2"
      "[]" "1 / 4" "3 / 4" "''2026-01-01T00:00:00.000Z''"]
    by simp
qed

text \<open>
  C5. Absorption of delivery failures: however the request of \<open>pushData()\<close> ends, the
  promise the call returns is fulfilled, never rejected; when the request is rejected
  (transport error, or a status outside 2xx) the call writes an error line with the name
  and the ID of the device and the message of the error. So a fleet tick runs \<open>pushData()\<close>
  on every device of the fleet, in order, and each of these calls ends fulfilled.
\<close>

theorem pushData_absorbs:
  "(\<exists>line. outcome (pushData env this inp) = Inr line)
   \<and> (\<forall>error. post inp = Inl error \<longrightarrow>
        outcome (pushData env this inp)
          = Inr (Console_error
              [S ''['', S (name (config this)), S '']='', I (deviceId (config this)),
               S '' Error:'', S (message error)]))
   \<and> (\<exists>effects. ticks (tick env p inps) = ticks p @ [effects]
        \<and> map (\<lambda>e. config (device e)) effects = map config (devices p)
        \<and> (\<forall>e \<in> set effects. \<exists>line. outcome e = Inr line))"
proof -
  let ?effects = "map (\<lambda>(i, d). pushData env d (inps i)) (enumerate 0 (devices p))"
  have "ticks (tick env p inps) = ticks p @ [?effects]
        \<and> map (\<lambda>e. config (device e)) ?effects = map config (devices p)
        \<and> (\<forall>e \<in> set ?effects. \<exists>line. outcome e = Inr line)"
    using tick_ticks[of env p inps] forEach_config[of env inps 0 "devices p"]
      forEach_fulfilled[of env inps 0 "devices p"] by simp
  then have "\<exists>effects. ticks (tick env p inps) = ticks p @ [effects]
        \<and> map (\<lambda>e. config (device e)) effects = map config (devices p)
        \<and> (\<forall>e \<in> set effects. \<exists>line. outcome e = Inr line)" ..
  then show ?thesis
    using pushData_fulfilled[of env this inp] by (simp add: pushData_outcome)
qed

theorem pushData_absorbs_witness:
  "post \<lparr>draw_temp = 1 / 4, draw_hum = 3 / 4, clock = ''2026-01-01T00:00:00.000Z'',
         post = Inl (Error ''Request failed with status code 500'')\<rparr>
     = Inl (Error ''Request failed with status code 500'')
   \<and> outcome (pushData (\<lambda>k. None)
        (new_SimulatedDevice
           \<lparr>deviceId = 7, serial = ''S7'', name = ''Sensor7'', location = ''Lab''\<rparr> ''abc123'' (1 / 2))
        \<lparr>draw_temp = 1 / 4, draw_hum = 3 / 4, clock = ''2026-01-01T00:00:00.000Z'',
         post = Inl (Error ''Request failed with status code 500'')\<rparr>)
     = Inr (Console_error
         [S ''['', S ''Sensor7'', S '']='', I 7, S '' Error:'',
          S ''Request failed with status code 500''])"
proof -
  have c: "config (new_SimulatedDevice
           \<lparr>deviceId = 7, serial = ''S7'', name = ''Sensor7'', location = ''Lab''\<rparr> ''abc123'' (1 / 2))
          = \<lparr>deviceId = 7, serial = ''S7'', name = ''Sensor7'', location = ''Lab''\<rparr>"
    by (simp add: new_SimulatedDevice_def Let_def)
  show ?thesis
    using pushData_absorbs[of "\<lambda>k. None"
      "new_SimulatedDevice
           \<lparr>deviceId = 7, serial = ''S7'', name = ''Sensor7'', location = ''Lab''\<rparr> ''abc123'' (1 / 2)"
      "\<lparr>draw_temp = 1 / 4, draw_hum = 3 / 4, clock = ''2026-01-01T00:00:00.000Z'',
         post = Inl (Error ''Request failed with status code 500'')\<rparr>"]
    by (simp add: c)
qed

text \<open>
  C6. Exclusion: when the registry has been loaded and the variable
  \<open>TOKEN_DEVICE_<N>\<close> of an entry with device ID \<open>N\<close> is absent, no device with the ID \<open>N\<close>
  is in the fleet, at startup or after the immediate tick and any number of firings of
  the timer; the warning that names \<open>N\<close> has been written; and \<open>activeDevices\<close> of the health
  answer counts exactly the entries whose token is present and not empty, so never that
  entry.
\<close>

theorem exclusion:
  assumes "main env (Inr rawConfig) JSON_parse rnd = Inr p"
    and "JSON_parse rawConfig = Inr deviceConfigs"
    and "cfg \<in> set deviceConfigs"
    and "env (envTokenKey cfg) = None"
  shows "(\<forall>d \<in> set (devices p). deviceId (config d) \<noteq> deviceId cfg)
         \<and> (\<forall>d \<in> set (devices (fire Fleet_tick env (on_listening env p (inps 0)) inps 1 n)).
               deviceId (config d) \<noteq> deviceId cfg)
         \<and> Console_warn
              [S ''Warning: No token found in .env for Device ID '', I (deviceId cfg),
               S '' (Expected key: '', S (envTokenKey cfg), S ''). Skipping.'']
            \<in> set (console p)
         \<and> health (fire Fleet_tick env (on_listening env p (inps 0)) inps 1 n)
            = (''running'',
               length (filter (\<lambda>c. env (envTokenKey c) \<noteq> None \<and> env (envTokenKey c) \<noteq> Some [])
                         deviceConfigs))
         \<and> health p
            = (''running'',
               length (filter (\<lambda>c. env (envTokenKey c) \<noteq> None \<and> env (envTokenKey c) \<noteq> Some [])
                         deviceConfigs))
         \<and> cfg \<notin> set (filter (\<lambda>c. env (envTokenKey c) \<noteq> None \<and> env (envTokenKey c) \<noteq> Some [])
                         deviceConfigs)"
proof -
  let ?fleet = "filter (\<lambda>c. env (envTokenKey c) \<noteq> None \<and> env (envTokenKey c) \<noteq> Some []) deviceConfigs"
  let ?run = "fire Fleet_tick env (on_listening env p (inps 0)) inps 1 n"
  have cfgs: "map config (devices p) = ?fleet"
    using main_Inr(1)[OF assms(1,2)] .
  have sim: "map config (devices ?run) = ?fleet"
    using cfgs by (simp add: fire_configs on_listening_configs)
  have key: "envTokenKey c = envTokenKey cfg" if "deviceId c = deviceId cfg" for c
    using that by (simp add: envTokenKey_def)
  have none: "deviceId c \<noteq> deviceId cfg" if "c \<in> set ?fleet" for c
    using that key[of c] assms(4) by auto
  have a: "\<forall>d \<in> set (devices p). deviceId (config d) \<noteq> deviceId cfg"
  proof
    fix d assume "d \<in> set (devices p)"
    then have "config d \<in> set (map config (devices p))" by simp
    then have "config d \<in> set ?fleet" by (simp only: cfgs)
    then show "deviceId (config d) \<noteq> deviceId cfg" by (rule none)
  qed
  have b: "\<forall>d \<in> set (devices ?run). deviceId (config d) \<noteq> deviceId cfg"
  proof
    fix d assume "d \<in> set (devices ?run)"
    then have "config d \<in> set (map config (devices ?run))" by simp
    then have "config d \<in> set ?fleet" by (simp only: sim)
    then show "deviceId (config d) \<noteq> deviceId cfg" by (rule none)
  qed
  have w: "Console_warn
              [S ''Warning: No token found in .env for Device ID '', I (deviceId cfg),
               S '' (Expected key: '', S (envTokenKey cfg), S ''). Skipping.'']
            \<in> set (console p)"
    using instantiate_warns[where env = env, OF assms(3,4)] main_Inr(2)[OF assms(1,2)] by blast
  have "length (devices ?run) = length ?fleet"
    using sim by (metis length_map)
  then have h: "health ?run = (''running'', length ?fleet)"
    by (simp add: health_def)
  have "length (devices p) = length ?fleet"
    using cfgs by (metis length_map)
  then have h0: "health p = (''running'', length ?fleet)"
    by (simp add: health_def)
  have n: "cfg \<notin> set ?fleet" using assms(4) by simp
  show ?thesis using a b w h h0 n by (simp only: simp_thms)
qed

theorem exclusion_witness:
  "\<exists>p. main (\<lambda>k. if k = ''TOKEN_DEVICE_7'' then Some ''abc123'' else None) (Inr ''registry'')
          (\<lambda>s. Inr [\<lparr>deviceId = 7, serial = ''S7'', name = ''Sensor7'', location = ''Lab''\<rparr>,
                      \<lparr>deviceId = 8, serial = ''S8'', name = ''Sensor8'', location = ''Roof''\<rparr>])
          (\<lambda>i. 1 / 2) = Inr p
     \<and> \<lparr>deviceId = 8, serial = ''S8'', name = ''Sensor8'', location = ''Roof''\<rparr>
         \<in> set [\<lparr>deviceId = 7, serial = ''S7'', name = ''Sensor7'', location = ''Lab''\<rparr>,
                 \<lparr>deviceId = 8, serial = ''S8'', name = ''Sensor8'', location = ''Roof''\<rparr>]
     \<and> (\<lambda>k. if k = ''TOKEN_DEVICE_7'' then Some ''abc123'' else None)
          (envTokenKey \<lparr>deviceId = 8, serial = ''S8'', name = ''Sensor8'', location = ''Roof''\<rparr>) = None
     \<and> Console_warn
          [S ''Warning: No token found in .env for Device ID '', I 8,
           S '' (Expected key: '', S ''TOKEN_DEVICE_8'', S ''). Skipping.'']
        \<in> set (console p)
     \<and> health (fire Fleet_tick (\<lambda>k. if k = ''TOKEN_DEVICE_7'' then Some ''abc123'' else None)
          (on_listening (\<lambda>k. if k = ''TOKEN_DEVICE_7'' then Some ''abc123'' else None) p
             (\<lambda>i. \<lparr>draw_temp = 1 / 4, draw_hum = 3 / 4, clock = ''2026-01-01T00:00:00.000Z'',
                    post = Inr 200\<rparr>))
          (\<lambda>k i. \<lparr>draw_temp = 1 / 4, draw_hum = 3 / 4, clock = ''2026-01-01T00:00:00.000Z'',
                    post = Inr 200\<rparr>) 1 2)
        = (''running'', 1)"
proof -
  let ?env = "\<lambda>k. if k = ''TOKEN_DEVICE_7'' then Some ''abc123'' else None"
  let ?c7 = "\<lparr>deviceId = 7, serial = ''S7'', name = ''Sensor7'', location = ''Lab''\<rparr>"
  let ?c8 = "\<lparr>deviceId = 8, serial = ''S8'', name = ''Sensor8'', location = ''Roof''\<rparr>"
  let ?parse = "\<lambda>s::string. (Inr [?c7, ?c8] :: DeviceConfig list settled)"
  let ?inps = "\<lambda>(k::nat) (i::nat). \<lparr>draw_temp = 1 / 4, draw_hum = 3 / 4,
                  clock = ''2026-01-01T00:00:00.000Z'', post = (Inr 200 :: nat settled)\<rparr>"
  have k7: "envTokenKey ?c7 = ''TOKEN_DEVICE_7''"
    by (simp add: envTokenKey_def toString_def toString_nonneg_def shortest_def digits.simps)
  have k8: "envTokenKey ?c8 = ''TOKEN_DEVICE_8''"
    by (simp add: envTokenKey_def toString_def toString_nonneg_def shortest_def digits.simps)
  have "\<exists>p. main ?env (Inr ''registry'') ?parse (\<lambda>i. 1 / 2) = Inr p"
    by (simp add: main_def Let_def)
  then obtain p where p: "main ?env (Inr ''registry'') ?parse (\<lambda>i. 1 / 2) = Inr p" ..
  have "?parse ''registry'' = Inr [?c7, ?c8]" by simp
  from exclusion[OF p this, of ?c8 ?inps 2]
  have "Console_warn
          [S ''Warning: No token found in .env for Device ID '', I 8,
           S '' (Expected key: '', S ''TOKEN_DEVICE_8'', S ''). Skipping.'']
        \<in> set (console p)
     \<and> health (fire Fleet_tick ?env (on_listening ?env p (?inps 0)) ?inps 1 2) = (''running'', 1)"
    by (simp add: k7 k8)
  then show ?thesis using p by (simp add: k8)
qed

text \<open>
  C7. Fatal configuration errors: when \<open>devices.json\<close> cannot be read, or its content is
  not parsed, the exception ends the module's top level with no device constructed, no
  route registered, the server not listening, no timer registered and no tick run.
\<close>

theorem configuration_fatal:
  "main env (Inl error) JSON_parse rnd
     = Inl (error, \<lparr>devices = [], console = [], routes = [], listening = None,
                    intervals = [], ticks = []\<rparr>)
   \<and> (JSON_parse rawConfig = Inl error \<longrightarrow>
        main env (Inr rawConfig) JSON_parse rnd
          = Inl (error, \<lparr>devices = [], console = [], routes = [], listening = None,
                         intervals = [], ticks = []\<rparr>))"
  by (simp add: main_def)

theorem configuration_fatal_witness:
  "(\<lambda>s. if s = ''[]'' then Inr [] else Inl (Error ''Unexpected token'')) ''{not json'' = Inl (Error ''Unexpected token'')
   \<and> main (\<lambda>k. None) (Inr ''{not json'')
        (\<lambda>s. if s = ''[]'' then Inr [] else Inl (Error ''Unexpected token'')) (\<lambda>i. 1 / 2)
     = Inl (Error ''Unexpected token'', \<lparr>devices = [], console = [], routes = [], listening = None,
                    intervals = [], ticks = []\<rparr>)"
  using configuration_fatal[of "\<lambda>k. None" "Error ''Unexpected token''"
      "\<lambda>s. if s = ''[]'' then Inr [] else Inl (Error ''Unexpected token'')" "\<lambda>i. 1 / 2" "''{not json''"]
  by simp

text \<open>
  C8. Frame of generation: a call of \<open>generateTelemetry()\<close> changes no field of the device
  other than \<open>currentBattery\<close>; the configuration (the identity of the device), the token
  and the two base values are as before.
\<close>

theorem generateTelemetry_frame:
  "snd (generateTelemetry this r1 r2 now)
     = this\<lparr>currentBattery := currentBattery (snd (generateTelemetry this r1 r2 now))\<rparr>
   \<and> config (snd (generateTelemetry this r1 r2 now)) = config this
   \<and> token (snd (generateTelemetry this r1 r2 now)) = token this
   \<and> baseTemp (snd (generateTelemetry this r1 r2 now)) = baseTemp this
   \<and> baseHum (snd (generateTelemetry this r1 r2 now)) = baseHum this"
  by (simp add: generateTelemetry_def Let_def)

text \<open>
  C9, as the source has it. The callback of \<open>app.listen\<close> runs the fleet tick once at once,
  that is \<open>pushData()\<close> on every device of the fleet in order, and registers one interval
  timer: its callback is the same fleet tick and its period is \<open>UPDATE_INTERVAL_MS\<close>, which
  is 2000 whatever the environment. Each firing of the timer is one more run of the tick,
  so that after \<open>n\<close> firings the tick has run \<open>1 + n\<close> times, each time on every device of
  the fleet.
\<close>

theorem scheduling_cadence:
  assumes "main env file JSON_parse rnd = Inr p"
  shows "ticks p = [] \<and> intervals p = []
         \<and> ticks (on_listening env p (inps 0))
             = [map (\<lambda>(i, d). pushData env d (inps 0 i)) (enumerate 0 (devices p))]
         \<and> devices (on_listening env p (inps 0))
             = map device (map (\<lambda>(i, d). pushData env d (inps 0 i)) (enumerate 0 (devices p)))
         \<and> intervals (on_listening env p (inps 0)) = [(UPDATE_INTERVAL_MS, Fleet_tick)]
         \<and> UPDATE_INTERVAL_MS = 2000
         \<and> call Fleet_tick env q inp
             = q\<lparr>devices := map device
                     (map (\<lambda>(i, d). pushData env d (inp i)) (enumerate 0 (devices q))),
                 ticks := ticks q @
                     [map (\<lambda>(i, d). pushData env d (inp i)) (enumerate 0 (devices q))]\<rparr>
         \<and> fire Fleet_tick env q inps k (Suc n)
             = call Fleet_tick env (fire Fleet_tick env q inps k n) (inps (k + n))
         \<and> intervals (fire Fleet_tick env (on_listening env p (inps 0)) inps 1 n)
             = [(2000, Fleet_tick)]
         \<and> length (ticks (fire Fleet_tick env (on_listening env p (inps 0)) inps 1 n)) = 1 + n
         \<and> (\<forall>effects \<in> set (ticks (fire Fleet_tick env (on_listening env p (inps 0)) inps 1 n)).
               map (\<lambda>e. config (device e)) effects = map config (devices p))"
proof -
  have "\<exists>rawConfig deviceConfigs. file = Inr rawConfig \<and> JSON_parse rawConfig = Inr deviceConfigs"
  proof (cases "file")
    case (Inl e)
    then show ?thesis using assms by (simp add: main_def)
  next
    case raw: (Inr rawConfig)
    show ?thesis
    proof (cases "JSON_parse rawConfig")
      case (Inl e)
      then show ?thesis using assms raw by (simp add: main_def)
    next
      case (Inr deviceConfigs)
      then show ?thesis using raw by simp
    qed
  qed
  then obtain rawConfig deviceConfigs where
    f: "file = Inr rawConfig" and j: "JSON_parse rawConfig = Inr deviceConfigs"
    by blast
  have m: "main env (Inr rawConfig) JSON_parse rnd = Inr p" using assms f by simp
  have i: "intervals p = []" and t: "ticks p = []"
    using main_Inr(3,4)[OF m j] by simp_all
  let ?q = "on_listening env p (inps 0)"
  let ?run = "fire Fleet_tick env ?q inps 1 n"
  have q1: "ticks ?q = [map (\<lambda>(i, d). pushData env d (inps 0 i)) (enumerate 0 (devices p))]"
    using t by (simp add: on_listening_ticks)
  have q2: "intervals ?q = [(UPDATE_INTERVAL_MS, Fleet_tick)]"
    using i by (simp add: on_listening_intervals)
  have q3: "devices ?q
      = map device (map (\<lambda>(i, d). pushData env d (inps 0 i)) (enumerate 0 (devices p)))"
    by (rule on_listening_devices)
  have c: "call Fleet_tick env q inp
             = q\<lparr>devices := map device
                     (map (\<lambda>(i, d). pushData env d (inp i)) (enumerate 0 (devices q))),
                 ticks := ticks q @
                     [map (\<lambda>(i, d). pushData env d (inp i)) (enumerate 0 (devices q))]\<rparr>"
    by (simp add: call_def tick_def Let_def)
  have s0: "fire Fleet_tick env q inps k (Suc n)
             = call Fleet_tick env (fire Fleet_tick env q inps k n) (inps (k + n))"
    by (rule fire_Suc)
  have s1: "intervals ?run = [(2000, Fleet_tick)]"
    using q2 by (simp add: fire_intervals UPDATE_INTERVAL_MS_def)
  have s2: "length (ticks ?run) = 1 + n"
    using q1 by (simp add: fire_count)
  have "\<forall>effects \<in> set (ticks ?q). map (\<lambda>e. config (device e)) effects = map config (devices ?q)"
    using forEach_config[of env "inps 0" 0 "devices p"]
    by (simp add: q1 on_listening_configs comp_def)
  from fire_covers[OF this] have s3: "\<forall>effects \<in> set (ticks ?run).
               map (\<lambda>e. config (device e)) effects = map config (devices p)"
    by (simp add: on_listening_configs)
  have u: "UPDATE_INTERVAL_MS = 2000" by (simp add: UPDATE_INTERVAL_MS_def)
  show ?thesis using i t q1 q2 q3 u c s0 s1 s2 s3 by (simp only: simp_thms)
qed

theorem scheduling_cadence_witness:
  "\<exists>p. main (\<lambda>k. if k = ''TOKEN_DEVICE_7'' then Some ''abc123'' else None) (Inr ''registry'')
          (\<lambda>s. Inr [\<lparr>deviceId = 7, serial = ''S7'', name = ''Sensor7'', location = ''Lab''\<rparr>])
          (\<lambda>i. 1 / 2) = Inr p
     \<and> length (ticks (on_listening (\<lambda>k. if k = ''TOKEN_DEVICE_7'' then Some ''abc123'' else None) p
          (\<lambda>i. \<lparr>draw_temp = 1 / 4, draw_hum = 3 / 4, clock = ''2026-01-01T00:00:00.000Z'',
                 post = Inr 200\<rparr>))) = 1
     \<and> intervals (on_listening (\<lambda>k. if k = ''TOKEN_DEVICE_7'' then Some ''abc123'' else None) p
          (\<lambda>i. \<lparr>draw_temp = 1 / 4, draw_hum = 3 / 4, clock = ''2026-01-01T00:00:00.000Z'',
                 post = Inr 200\<rparr>)) = [(2000, Fleet_tick)]
     \<and> length (ticks (fire Fleet_tick (\<lambda>k. if k = ''TOKEN_DEVICE_7'' then Some ''abc123'' else None)
          (on_listening (\<lambda>k. if k = ''TOKEN_DEVICE_7'' then Some ''abc123'' else None) p
             (\<lambda>i. \<lparr>draw_temp = 1 / 4, draw_hum = 3 / 4, clock = ''2026-01-01T00:00:00.000Z'',
                    post = Inr 200\<rparr>))
          (\<lambda>k i. \<lparr>draw_temp = 1 / 4, draw_hum = 3 / 4, clock = ''2026-01-01T00:00:00.000Z'',
                    post = Inr 200\<rparr>) 1 2)) = 3"
proof -
  let ?env = "\<lambda>k. if k = ''TOKEN_DEVICE_7'' then Some ''abc123'' else None"
  let ?c7 = "\<lparr>deviceId = 7, serial = ''S7'', name = ''Sensor7'', location = ''Lab''\<rparr>"
  let ?parse = "\<lambda>s::string. (Inr [?c7] :: DeviceConfig list settled)"
  let ?inps = "\<lambda>(k::nat) (i::nat). \<lparr>draw_temp = 1 / 4, draw_hum = 3 / 4,
                  clock = ''2026-01-01T00:00:00.000Z'', post = (Inr 200 :: nat settled)\<rparr>"
  have "\<exists>p. main ?env (Inr ''registry'') ?parse (\<lambda>i. 1 / 2) = Inr p"
    by (simp add: main_def Let_def)
  then obtain p where p: "main ?env (Inr ''registry'') ?parse (\<lambda>i. 1 / 2) = Inr p" ..
  have "length (ticks (on_listening ?env p (?inps 0))) = 1
      \<and> intervals (on_listening ?env p (?inps 0)) = [(2000, Fleet_tick)]
      \<and> length (ticks (fire Fleet_tick ?env (on_listening ?env p (?inps 0)) ?inps 1 2)) = 3"
    using scheduling_cadence[OF p, of ?inps _ _ _ 2] by simp
  then show ?thesis using p by simp
qed

text \<open>
  C9 as it is stated calls the period a configurable default. The period is the constant
  of the source: with the variables \<open>UPDATE_INTERVAL_MS\<close> and \<open>TICK_INTERVAL_MS\<close> of the
  environment set to 5000, the timer registered still has the period 2000.
\<close>

theorem scheduling_cadence_counterexample:
  "intervals (on_listening
       (\<lambda>k. if k = ''UPDATE_INTERVAL_MS'' \<or> k = ''TICK_INTERVAL_MS'' then Some ''5000'' else None)
       \<lparr>devices = [\<lparr>config = \<lparr>deviceId = 7, serial = ''S7'', name = ''Sensor7'', location = ''Lab''\<rparr>,
                     token = ''abc123'', baseTemp = 27, baseHum = 47, currentBattery = 50\<rparr>],
        console = [], routes = [''/health''], listening = Some ''4000'', intervals = [], ticks = []\<rparr>
       (\<lambda>i. \<lparr>draw_temp = 1 / 4, draw_hum = 3 / 4, clock = ''2026-01-01T00:00:00.000Z'',
              post = Inr 200\<rparr>))
     = [(2000, Fleet_tick)]
   \<and> intervals (on_listening
       (\<lambda>k. if k = ''UPDATE_INTERVAL_MS'' \<or> k = ''TICK_INTERVAL_MS'' then Some ''5000'' else None)
       \<lparr>devices = [\<lparr>config = \<lparr>deviceId = 7, serial = ''S7'', name = ''Sensor7'', location = ''Lab''\<rparr>,
                     token = ''abc123'', baseTemp = 27, baseHum = 47, currentBattery = 50\<rparr>],
        console = [], routes = [''/health''], listening = Some ''4000'', intervals = [], ticks = []\<rparr>
       (\<lambda>i. \<lparr>draw_temp = 1 / 4, draw_hum = 3 / 4, clock = ''2026-01-01T00:00:00.000Z'',
              post = Inr 200\<rparr>))
     \<noteq> [(5000, Fleet_tick)]"
  by (simp add: on_listening_intervals UPDATE_INTERVAL_MS_def)

text \<open>
  C10, as the source has it. For a random draw \<open>r\<close> in \<open>[0, 1)\<close> the initial battery level
  is the floor of the product \<open>r * 100\<close> as the multiplication of numbers gives it, rounded
  to a double: that is the floor of the exact product or one more. It is a whole number
  from 0 to 99; the draw 0 gives exactly 0, so that the level is not positive before the
  first call of \<open>generateTelemetry()\<close>.
\<close>

theorem initial_battery:
  assumes "is_double r" and "0 \<le> r" and "r < 1"
  shows "currentBattery (new_SimulatedDevice cfg tok r) = of_int \<lfloor>js_mul r 100\<rfloor>
         \<and> \<lfloor>r * 100\<rfloor> \<le> \<lfloor>js_mul r 100\<rfloor> \<and> \<lfloor>js_mul r 100\<rfloor> \<le> \<lfloor>r * 100\<rfloor> + 1
         \<and> (\<exists>n::nat. n \<le> 99 \<and> currentBattery (new_SimulatedDevice cfg tok r) = of_nat n)
         \<and> is_double 0 \<and> currentBattery (new_SimulatedDevice cfg tok 0) = 0
         \<and> \<not> 0 < currentBattery (new_SimulatedDevice cfg tok 0)"
proof -
  have eq: "currentBattery (new_SimulatedDevice cfg tok r) = of_int \<lfloor>js_mul r 100\<rfloor>"
    by (simp add: new_SimulatedDevice_def Math_floor_def Let_def)
  have rng: "0 \<le> \<lfloor>js_mul r 100\<rfloor> \<and> \<lfloor>js_mul r 100\<rfloor> \<le> 99"
    using floor_draw_range[OF assms] .
  have "0 \<le> r * 100" "r * 100 < 100" using assms(2,3) by simp_all
  then have "0 \<le> \<lfloor>r * 100\<rfloor>" "\<lfloor>r * 100\<rfloor> < 100" by (simp_all add: floor_less_iff)
  then have "\<bar>\<lfloor>r * 100\<rfloor>\<bar> + 1 < 2 ^ 53" by simp
  from floor_fl[OF this] have near:
    "\<lfloor>r * 100\<rfloor> \<le> \<lfloor>js_mul r 100\<rfloor> \<and> \<lfloor>js_mul r 100\<rfloor> \<le> \<lfloor>r * 100\<rfloor> + 1"
    by (simp only: js_mul_def)
  have n1: "nat \<lfloor>js_mul r 100\<rfloor> \<le> 99" using rng by linarith
  have "0 \<le> \<lfloor>js_mul r 100\<rfloor>" using rng ..
  then have "(of_nat (nat \<lfloor>js_mul r 100\<rfloor>) :: real) = of_int \<lfloor>js_mul r 100\<rfloor>"
    by (simp only: of_nat_nat)
  then have "nat \<lfloor>js_mul r 100\<rfloor> \<le> 99
      \<and> currentBattery (new_SimulatedDevice cfg tok r) = of_nat (nat \<lfloor>js_mul r 100\<rfloor>)"
    using eq n1 by (simp only: simp_thms)
  then have ex: "\<exists>n::nat. n \<le> 99 \<and> currentBattery (new_SimulatedDevice cfg tok r) = of_nat n" ..
  have zero: "currentBattery (new_SimulatedDevice cfg tok 0) = 0"
    by (simp add: new_SimulatedDevice_def Math_floor_def js_mul_def fl_zero Let_def)
  have z: "is_double 0 \<and> \<not> 0 < currentBattery (new_SimulatedDevice cfg tok 0)"
    using zero by (simp add: is_double_def fl_zero)
  show ?thesis using eq near ex zero z by (simp only: simp_thms)
qed

theorem initial_battery_witness:
  "is_double (1 / 2) \<and> (0::real) \<le> 1 / 2 \<and> (1 / 2 :: real) < 1
   \<and> currentBattery (new_SimulatedDevice
        \<lparr>deviceId = 7, serial = ''S7'', name = ''Sensor7'', location = ''Lab''\<rparr> ''abc123'' (1 / 2)) = 50"
proof -
  have d: "is_double (1 / 2)"
    by (simp add: is_double_def fl_def round53.simps round_half_even_def Let_def)
  have f: "js_mul (1 / 2) 100 = 50"
    using fl_of_int[of 50] by (simp add: js_mul_def)
  show ?thesis
    using d f initial_battery[of "1 / 2"
      "\<lparr>deviceId = 7, serial = ''S7'', name = ''Sensor7'', location = ''Lab''\<rparr>" "''abc123''"]
    by simp
qed

text \<open>
  C10 as it is stated, with \<open>floor(r * 100)\<close> the floor of the exact product, fails at the
  draw 0.35, the double \<open>6305039478318694 / 2^54\<close>, just below the real number: the exact
  product is below 35 and its floor is 34, while the product of the numbers is 35, and so
  is the initial battery level.
\<close>

theorem initial_battery_counterexample:
  "is_double (6305039478318694 / 2 ^ 54)
   \<and> (0::real) \<le> 6305039478318694 / 2 ^ 54 \<and> (6305039478318694 / 2 ^ 54 :: real) < 1
   \<and> lit (35 / 100) = 6305039478318694 / 2 ^ 54
   \<and> \<lfloor>6305039478318694 / 2 ^ 54 * 100 :: real\<rfloor> = 34
   \<and> currentBattery (new_SimulatedDevice
        \<lparr>deviceId = 7, serial = ''S7'', name = ''Sensor7'', location = ''Lab''\<rparr> ''abc123''
        (6305039478318694 / 2 ^ 54)) = 35
   \<and> currentBattery (new_SimulatedDevice
        \<lparr>deviceId = 7, serial = ''S7'', name = ''Sensor7'', location = ''Lab''\<rparr> ''abc123''
        (6305039478318694 / 2 ^ 54)) \<noteq> of_int \<lfloor>6305039478318694 / 2 ^ 54 * 100 :: real\<rfloor>"
proof -
  have d: "is_double (6305039478318694 / 2 ^ 54)"
    by (simp add: is_double_def fl_def round53.simps round_half_even_def Let_def)
  have m: "js_mul (6305039478318694 / 2 ^ 54) 100 = 35"
    by (simp add: js_mul_def fl_def round53.simps round_half_even_def Let_def)
  have b: "currentBattery (new_SimulatedDevice
        \<lparr>deviceId = 7, serial = ''S7'', name = ''Sensor7'', location = ''Lab''\<rparr> ''abc123''
        (6305039478318694 / 2 ^ 54)) = 35"
    by (simp only: new_SimulatedDevice_def Let_def Math_floor_def m SimulatedDevice.simps) simp
  have f: "\<lfloor>6305039478318694 / 2 ^ 54 * 100 :: real\<rfloor> = 34" by simp
  show ?thesis using d b f lit_035 by simp
qed


end
